theory Spec2Isabelle
  imports Complex_Main "HOL-Library.Word"
begin

section \<open>Region-growing image compressor: data model\<close>

text \<open>
  The development embeds \<^verbatim>\<open>utils/image_utils.{hpp,cpp}\<close> and
  \<^verbatim>\<open>algorithms/adaptive_region_grower.cpp\<close>.

  Conventions of the embedding:
  \<^item> \<^verbatim>\<open>uint8_t\<close> is \<open>8 word\<close>, \<^verbatim>\<open>uint32_t\<close> is \<open>32 word\<close> (sums wrap);
  \<^item> \<^verbatim>\<open>int\<close> coordinates are \<open>int\<close>. The sums and differences the sources form
    from them (\<^verbatim>\<open>x + radius\<close>, \<^verbatim>\<open>y * width_ + x\<close>) are those of \<open>int\<close> as long as
    they lie in \<open>[-2^31, 2^31)\<close>; outside that range the source has no defined value,
    and a theorem about an arbitrary radius states the range as a hypothesis;
  \<^item> \<^verbatim>\<open>double\<close> is \<open>real\<close>: the theorems are about the arithmetic the code
    writes down, not about rounding;
  \<^item> an integer division by zero (the only way the modelled functions can trap) is
    the value \<open>None\<close>.
\<close>

type_synonym u8 = "8 word"
type_synonym u32 = "32 word"

text \<open>\<^verbatim>\<open>struct Color { uint8_t r, g, b; }\<close>; the default constructor is black.\<close>

datatype Color = Color (col_r: u8) (col_g: u8) (col_b: u8)

definition Color_default :: Color where
  "Color_default = Color 0 0 0"

text \<open>\<^verbatim>\<open>struct Point { int x, y; }\<close>\<close>

datatype Point = Point (pt_x: int) (pt_y: int)

text \<open>\<^verbatim>\<open>class Image\<close>: \<^verbatim>\<open>width_\<close>, \<^verbatim>\<open>height_\<close> and the row-major vector \<^verbatim>\<open>pixels_\<close> (members are written \<open>m_width\<close>, ...).\<close>

record Image =
  m_width :: int
  m_height :: int
  m_pixels :: "Color list"

datatype error = InvalidArgument

text \<open>\<^verbatim>\<open>Image::Image(int width, int height)\<close>: throws on non-positive dimensions.\<close>

definition Image_new :: "int \<Rightarrow> int \<Rightarrow> error + Image" where
  "Image_new w h =
     (if w \<le> 0 \<or> h \<le> 0 then Inl InvalidArgument
      else Inr \<lparr>m_width = w, m_height = h, m_pixels = replicate (nat (w * h)) Color_default\<rparr>)"

text \<open>The class invariant that both constructors establish.\<close>

definition image_ok :: "Image \<Rightarrow> bool" where
  "image_ok img \<longleftrightarrow>
     0 < m_width img \<and> 0 < m_height img \<and> length (m_pixels img) = nat (m_width img * m_height img)"

definition getIndex :: "Image \<Rightarrow> int \<Rightarrow> int \<Rightarrow> nat" where
  "getIndex img x y = nat (y * m_width img + x)"

definition getPixel :: "Image \<Rightarrow> int \<Rightarrow> int \<Rightarrow> Color" where
  "getPixel img x y =
     (if x < 0 \<or> x \<ge> m_width img \<or> y < 0 \<or> y \<ge> m_height img then Color_default
      else m_pixels img ! getIndex img x y)"

definition setPixel :: "Image \<Rightarrow> int \<Rightarrow> int \<Rightarrow> Color \<Rightarrow> Image" where
  "setPixel img x y color =
     (if x < 0 \<or> x \<ge> m_width img \<or> y < 0 \<or> y \<ge> m_height img then img
      else img\<lparr>m_pixels := (m_pixels img)[getIndex img x y := color]\<rparr>)"

text \<open>
  \<^verbatim>\<open>Image::calculateAverageColor\<close>. The three totals are \<^verbatim>\<open>uint32_t\<close>;
  \<^verbatim>\<open>count\<close> is the vector's size cast to \<^verbatim>\<open>int\<close>, and \<^verbatim>\<open>totalR / count\<close> is an
  unsigned 32-bit division (the \<^verbatim>\<open>int\<close> is converted to \<^verbatim>\<open>unsigned\<close>); the quotient is
  cast to \<^verbatim>\<open>uint8_t\<close>.
\<close>

definition add_color :: "Color \<Rightarrow> u32 \<times> u32 \<times> u32 \<Rightarrow> u32 \<times> u32 \<times> u32" where
  "add_color color t =
     (case t of (totalR, totalG, totalB) \<Rightarrow>
        (totalR + ucast (col_r color), totalG + ucast (col_g color), totalB + ucast (col_b color)))"

definition channel_totals :: "Color list \<Rightarrow> u32 \<times> u32 \<times> u32" where
  "channel_totals colors = fold add_color colors (0, 0, 0)"

definition size_to_int :: "nat \<Rightarrow> int" where
  "size_to_int n = sint (word_of_nat n :: u32)"

definition average_of_totals :: "u32 \<times> u32 \<times> u32 \<Rightarrow> int \<Rightarrow> Color option" where
  "average_of_totals t count =
     (case t of (totalR, totalG, totalB) \<Rightarrow>
        (let c = (word_of_int count :: u32) in
         if c = 0 then None
         else Some (Color (ucast (totalR div c)) (ucast (totalG div c)) (ucast (totalB div c)))))"

definition pixels_at :: "Image \<Rightarrow> Point list \<Rightarrow> Color list" where
  "pixels_at img points = map (\<lambda>p. getPixel img (pt_x p) (pt_y p)) points"

definition calculateAverageColor :: "Point list \<Rightarrow> Image \<Rightarrow> Color option" where
  "calculateAverageColor points img =
     (if points = [] then Some Color_default
      else average_of_totals (channel_totals (pixels_at img points)) (size_to_int (length points)))"

text \<open>
  \<^verbatim>\<open>colorSimilarity\<close>: the constant in the source is the literal \<^verbatim>\<open>441.67\<close>.
\<close>

definition maxDistance :: real where
  "maxDistance = 441.67"

definition channel_diff :: "u8 \<Rightarrow> u8 \<Rightarrow> real" where
  "channel_diff a b = real (unat a) - real (unat b)"

definition colorSimilarity :: "Color \<Rightarrow> Color \<Rightarrow> real" where
  "colorSimilarity c1 c2 =
     (let dr = channel_diff (col_r c1) (col_r c2);
          dg = channel_diff (col_g c1) (col_g c2);
          db = channel_diff (col_b c1) (col_b c2);
          distance = sqrt (dr * dr + dg * dg + db * db)
      in 1 - distance / maxDistance)"

section \<open>The region grower\<close>

text \<open>
  \<^verbatim>\<open>class RegionGrower\<close> / \<^verbatim>\<open>class AdaptiveRegionGrower\<close>: the configuration members.
  The similarity cache, the one member that \<^verbatim>\<open>findRegion\<close> mutates, is passed and
  returned explicitly.
\<close>

record RegionGrower =
  m_image :: Image
  m_similarityThreshold :: real
  m_maxRegionSize :: int
  m_adaptiveMode :: bool

text \<open>
  Modelled from the spec: the constructor \<^verbatim>\<open>RegionGrower::RegionGrower\<close> is declared in
  \<^verbatim>\<open>region_grower.hpp\<close> but its body is not among the sources. The members
  \<^verbatim>\<open>width_\<close> and \<^verbatim>\<open>height_\<close> of the grower are taken to be the dimensions of the
  image it was built for; \<^verbatim>\<open>similarityThreshold_\<close> and \<^verbatim>\<open>maxRegionSize_\<close> are the
  values the members hold when \<^verbatim>\<open>findRegion\<close> runs.
\<close>

text \<open>
  Modelled from the spec: what the absent constructor stores in \<^verbatim>\<open>maxRegionSize_\<close>.
  The header declares \<^verbatim>\<open>int maxRegionSize = 0\<close> and the spec reads the value 0 as
  ``unbounded'' (``maximum region size (0 = unbounded)''), while the loop of
  \<^verbatim>\<open>findRegion\<close> compares the size of the region with the member. The constructor is
  therefore taken to store the configured value when it is not 0, and for 0 a value
  \<open>unboundedCap\<close> standing for ``no cap''. Which value that is the sources do not say: it
  is a parameter here, and the theorems that depend on it ask that it is not smaller than
  the number of pixels of the image.
\<close>

definition RegionGrower_new :: "int \<Rightarrow> Image \<Rightarrow> real \<Rightarrow> int \<Rightarrow> bool \<Rightarrow> RegionGrower" where
  "RegionGrower_new unboundedCap img similarityThreshold maxRegionSize adaptiveMode =
     \<lparr>m_image = img, m_similarityThreshold = similarityThreshold,
      m_maxRegionSize = (if maxRegionSize = 0 then unboundedCap else maxRegionSize),
      m_adaptiveMode = adaptiveMode\<rparr>"

definition grower_width :: "RegionGrower \<Rightarrow> int" where
  "grower_width g = m_width (m_image g)"

definition grower_height :: "RegionGrower \<Rightarrow> int" where
  "grower_height g = m_height (m_image g)"

definition isValidCoordinate :: "RegionGrower \<Rightarrow> int \<Rightarrow> int \<Rightarrow> bool" where
  "isValidCoordinate g x y \<longleftrightarrow> x \<ge> 0 \<and> x < grower_width g \<and> y \<ge> 0 \<and> y < grower_height g"

text \<open>
  Modelled from the spec: \<^verbatim>\<open>RegionGrower::getNeighbors\<close> is declared in
  \<^verbatim>\<open>region_grower.hpp\<close> but its body is not among the sources. The spec: neighbour
  enumeration supports 4-connected or 8-connected adjacency, and coordinates outside
  \<open>[0,width) \<times> [0,height)\<close> are never returned. The order of enumeration is a choice of
  this model (row by row); the proofs below do not rely on it.
\<close>

definition offsets4 :: "(int \<times> int) list" where
  "offsets4 = [(0, -1), (-1, 0), (1, 0), (0, 1)]"

definition offsets8 :: "(int \<times> int) list" where
  "offsets8 = [(-1, -1), (0, -1), (1, -1), (-1, 0), (1, 0), (-1, 1), (0, 1), (1, 1)]"

definition getNeighbors :: "RegionGrower \<Rightarrow> int \<Rightarrow> int \<Rightarrow> bool \<Rightarrow> Point list" where
  "getNeighbors g x y include8Connected =
     filter (\<lambda>p. isValidCoordinate g (pt_x p) (pt_y p))
       (map (\<lambda>d. Point (x + fst d) (y + snd d))
          (if include8Connected then offsets8 else offsets4))"

subsection \<open>The adaptive threshold\<close>

text \<open>
  \<^verbatim>\<open>AdaptiveRegionGrower::calculateAdaptiveThreshold\<close>. The two nested \<^verbatim>\<open>for\<close> loops
  collect the window row by row; the totals, \<^verbatim>\<open>count\<close> and the division are those of
  \<^verbatim>\<open>calculateAverageColor\<close> (\<^verbatim>\<open>uint32_t\<close> totals, unsigned division, \<^verbatim>\<open>uint8_t\<close>
  channels of \<^verbatim>\<open>avgColor\<close>). An empty window makes \<^verbatim>\<open>count\<close> zero and the division
  traps.

  The bounds \<^verbatim>\<open>x - radius\<close>, \<^verbatim>\<open>x + radius\<close>, \<^verbatim>\<open>y - radius\<close> and \<^verbatim>\<open>y + radius\<close> are
  \<^verbatim>\<open>int\<close> expressions of the source. For a coordinate of the image and a radius
  \<open>0 \<le> radius\<close> the differences are always in range; the sums are in range exactly when
  \<open>x + radius < 2^31\<close> and \<open>y + radius < 2^31\<close>, and only then does \<open>localColors\<close> stand
  for the source. The function is private and both of its calls (in \<^verbatim>\<open>findRegion\<close>)
  leave the radius at its default 3.
\<close>

definition localColors :: "RegionGrower \<Rightarrow> int \<Rightarrow> int \<Rightarrow> int \<Rightarrow> Color list" where
  "localColors g x y radius =
     (let xMin = max 0 (x - radius);
          xMax = min (grower_width g - 1) (x + radius);
          yMin = max 0 (y - radius);
          yMax = min (grower_height g - 1) (y + radius)
      in concat (map (\<lambda>ly. map (\<lambda>lx. getPixel (m_image g) lx ly) [xMin..xMax]) [yMin..yMax]))"

definition add_deviation :: "Color \<Rightarrow> Color \<Rightarrow> real \<Rightarrow> real" where
  "add_deviation avgColor color variance =
     (let dr = channel_diff (col_r color) (col_r avgColor);
          dg = channel_diff (col_g color) (col_g avgColor);
          db = channel_diff (col_b color) (col_b avgColor)
      in variance + (dr * dr + dg * dg + db * db))"

definition calculateAdaptiveThreshold :: "RegionGrower \<Rightarrow> int \<Rightarrow> int \<Rightarrow> int \<Rightarrow> real option" where
  "calculateAdaptiveThreshold g x y radius =
     (let colors = localColors g x y radius;
          count = size_to_int (length colors)
      in case average_of_totals (channel_totals colors) count of
           None \<Rightarrow> None
         | Some avgColor \<Rightarrow>
             (let variance = fold (add_deviation avgColor) colors 0 / (real_of_int count * 3 * 255 * 255);
                  varianceFactor = min 1 (variance * 2);
                  adjustedThreshold = m_similarityThreshold g
                    + (1 - m_similarityThreshold g) * (1 - varianceFactor) * 0.3
              in Some adjustedThreshold))"

subsection \<open>The similarity cache\<close>

text \<open>
  \<^verbatim>\<open>std::to_string\<close> on a channel value (promoted to \<^verbatim>\<open>int\<close>, never negative) is its
  decimal numeral.
\<close>

definition digit_char :: "nat \<Rightarrow> char" where
  "digit_char d = char_of (48 + d)"

fun to_string :: "nat \<Rightarrow> string" where
  "to_string n = (if n < 10 then [digit_char n] else to_string (n div 10) @ [digit_char (n mod 10)])"

declare to_string.simps [simp del]

type_synonym similarityCache = "string \<rightharpoonup> real"

definition color_less :: "Color \<Rightarrow> Color \<Rightarrow> bool" where
  "color_less a b \<longleftrightarrow>
     col_r a < col_r b \<or> (col_r a = col_r b \<and> (col_g a < col_g b \<or> (col_g a = col_g b \<and> col_b a < col_b b)))"

definition color_string :: "Color \<Rightarrow> string" where
  "color_string c =
     to_string (unat (col_r c)) @ ''-'' @ to_string (unat (col_g c)) @ ''-'' @ to_string (unat (col_b c))"

definition cache_key :: "Color \<Rightarrow> Color \<Rightarrow> string" where
  "cache_key c1 c2 =
     (let first = (if color_less c2 c1 then c2 else c1);
          second = (if color_less c2 c1 then c1 else c2)
      in color_string first @ ''_'' @ color_string second)"

definition getCachedSimilarity :: "similarityCache \<Rightarrow> Color \<Rightarrow> Color \<Rightarrow> real \<times> similarityCache" where
  "getCachedSimilarity cache c1 c2 =
     (let key = cache_key c1 c2 in
      case cache key of
        Some v \<Rightarrow> (v, cache)
      | None \<Rightarrow> (let similarity = colorSimilarity c1 c2 in (similarity, cache(key \<mapsto> similarity))))"

subsection \<open>The priority queue\<close>

text \<open>
  \<^verbatim>\<open>std::priority_queue<PriorityItem, std::vector<PriorityItem>, std::greater<PriorityItem>>\<close>:
  \<^verbatim>\<open>top\<close> is an item of least \<open>priority\<close>. Which of several items of the same least
  priority comes first is decided by the heap layout of the standard library; the model
  takes the one pushed first. The theorems below hold for any such choice: their proofs
  use only that the popped item was in the queue and that the rest is the queue without it.
\<close>

datatype PriorityItem = PriorityItem (priority: real) (point: Point) (similarity: real)

type_synonym priorityQueue = "PriorityItem list"

definition pq_push :: "priorityQueue \<Rightarrow> PriorityItem \<Rightarrow> priorityQueue" where
  "pq_push q item = q @ [item]"

fun least_item :: "PriorityItem \<Rightarrow> PriorityItem list \<Rightarrow> PriorityItem" where
  "least_item a [] = a"
| "least_item a (b # q) = least_item (if priority b < priority a then b else a) q"

definition pq_top :: "priorityQueue \<Rightarrow> PriorityItem" where
  "pq_top q = least_item (hd q) (tl q)"

definition pq_pop :: "priorityQueue \<Rightarrow> priorityQueue" where
  "pq_pop q = remove1 (pq_top q) q"

subsection \<open>\<^verbatim>\<open>findRegion\<close>\<close>

text \<open>The mask \<^verbatim>\<open>processed[y][x]\<close>; it is only read at coordinates \<^verbatim>\<open>getNeighbors\<close> returned.\<close>

type_synonym processedMask = "bool list list"

definition processed_at :: "processedMask \<Rightarrow> Point \<Rightarrow> bool" where
  "processed_at processed p = processed ! nat (pt_y p) ! nat (pt_x p)"

text \<open>\<^verbatim>\<open>static_cast<size_t>(maxRegionSize_)\<close> on a 64-bit \<^verbatim>\<open>size_t\<close>.\<close>

definition size_t_of_int :: "int \<Rightarrow> nat" where
  "size_t_of_int i = nat (i mod 2 ^ 64)"

record GrowState =
  region :: "Point set"
  regionList :: "Point list"
  priorityQueue :: priorityQueue
  similarityCache :: similarityCache

text \<open>The first \<^verbatim>\<open>for\<close> loop: the unprocessed neighbours of the seed are all queued.\<close>

definition seed_neighbor ::
  "RegionGrower \<Rightarrow> Color \<Rightarrow> processedMask \<Rightarrow> Point \<Rightarrow> priorityQueue \<times> similarityCache
     \<Rightarrow> priorityQueue \<times> similarityCache" where
  "seed_neighbor g seedColor processed neighbor qc =
     (case qc of (q, cache) \<Rightarrow>
        if processed_at processed neighbor then (q, cache)
        else (let neighborColor = getPixel (m_image g) (pt_x neighbor) (pt_y neighbor);
                  (similarity, cache') = getCachedSimilarity cache seedColor neighborColor
              in (pq_push q (PriorityItem (1 - similarity) neighbor similarity), cache')))"

text \<open>The inner \<^verbatim>\<open>for\<close> loop of the growth loop, for one neighbour of an accepted pixel.\<close>

definition grow_neighbor ::
  "RegionGrower \<Rightarrow> Color \<Rightarrow> Color \<Rightarrow> real \<Rightarrow> processedMask \<Rightarrow> Point set \<Rightarrow> Point
     \<Rightarrow> priorityQueue \<times> similarityCache \<Rightarrow> priorityQueue \<times> similarityCache" where
  "grow_neighbor g seedColor currentColor adaptiveThreshold processed reg neighbor qc =
     (case qc of (q, cache) \<Rightarrow>
        if neighbor \<in> reg \<or> processed_at processed neighbor then (q, cache)
        else (let neighborColor = getPixel (m_image g) (pt_x neighbor) (pt_y neighbor);
                  (similarityToSeed, cache1) = getCachedSimilarity cache seedColor neighborColor;
                  (similarityToCurrent, cache2) = getCachedSimilarity cache1 currentColor neighborColor;
                  bestSimilarity = max similarityToSeed similarityToCurrent
              in if bestSimilarity \<ge> adaptiveThreshold * 0.8
                 then (pq_push q (PriorityItem (1 - bestSimilarity) neighbor bestSimilarity), cache2)
                 else (q, cache2)))"

text \<open>
  \<^verbatim>\<open>baseAdaptiveThreshold\<close>, and the threshold of one candidate. The default radius of
  \<^verbatim>\<open>calculateAdaptiveThreshold\<close> is 3.
\<close>

definition baseAdaptiveThreshold :: "RegionGrower \<Rightarrow> int \<Rightarrow> int \<Rightarrow> real option" where
  "baseAdaptiveThreshold g seedX seedY =
     (if m_adaptiveMode g then calculateAdaptiveThreshold g seedX seedY 3
      else Some (m_similarityThreshold g))"

definition adaptiveThreshold_at :: "RegionGrower \<Rightarrow> real \<Rightarrow> Point \<Rightarrow> real option" where
  "adaptiveThreshold_at g baseThreshold p =
     (if m_adaptiveMode g
      then (case calculateAdaptiveThreshold g (pt_x p) (pt_y p) 3 of
              None \<Rightarrow> None
            | Some localThreshold \<Rightarrow> Some (min baseThreshold localThreshold))
      else Some (m_similarityThreshold g))"

text \<open>One iteration of the \<^verbatim>\<open>while\<close> loop (the queue is not empty).\<close>

definition grow_step ::
  "RegionGrower \<Rightarrow> Color \<Rightarrow> real \<Rightarrow> processedMask \<Rightarrow> GrowState \<Rightarrow> GrowState option" where
  "grow_step g seedColor baseThreshold processed st =
     (let current = pq_top (priorityQueue st);
          q = pq_pop (priorityQueue st);
          p = point current
      in if p \<in> region st \<or> processed_at processed p then Some (st\<lparr>priorityQueue := q\<rparr>)
         else
           (let currentColor = getPixel (m_image g) (pt_x p) (pt_y p);
                (similarityToSeed, cache1) = getCachedSimilarity (similarityCache st) seedColor currentColor
            in case adaptiveThreshold_at g baseThreshold p of
                 None \<Rightarrow> None
               | Some adaptiveThreshold \<Rightarrow>
                   if similarityToSeed \<ge> adaptiveThreshold
                   then (let reg = insert p (region st);
                             (q', cache2) = fold
                               (grow_neighbor g seedColor currentColor adaptiveThreshold processed reg)
                               (getNeighbors g (pt_x p) (pt_y p) True) (q, cache1)
                         in Some \<lparr>region = reg, regionList = regionList st @ [p],
                                  priorityQueue = q', similarityCache = cache2\<rparr>)
                   else Some (st\<lparr>priorityQueue := q, similarityCache := cache1\<rparr>)))"

definition loop_condition :: "RegionGrower \<Rightarrow> GrowState \<Rightarrow> bool" where
  "loop_condition g st \<longleftrightarrow>
     priorityQueue st \<noteq> [] \<and> card (region st) < size_t_of_int (m_maxRegionSize g)"

text \<open>
  The loop terminates: every iteration removes an item from the queue, and items are
  added only when a point that was not yet in the region joins it; such points are valid
  coordinates or were in the queue already, so only finitely many can join.
\<close>

definition valid_points :: "RegionGrower \<Rightarrow> Point set" where
  "valid_points g = {p. isValidCoordinate g (pt_x p) (pt_y p)}"

definition universe :: "RegionGrower \<Rightarrow> GrowState \<Rightarrow> Point set" where
  "universe g st = valid_points g \<union> point ` set (priorityQueue st)"

lemma finite_valid_points: "finite (valid_points g)"
proof -
  have "valid_points g \<subseteq> (\<lambda>(a, b). Point a b) ` ({0..<grower_width g} \<times> {0..<grower_height g})"
  proof
    fix p assume "p \<in> valid_points g"
    then have "(pt_x p, pt_y p) \<in> {0..<grower_width g} \<times> {0..<grower_height g}"
      by (simp add: valid_points_def isValidCoordinate_def)
    then have "(\<lambda>(a, b). Point a b) (pt_x p, pt_y p) \<in> (\<lambda>(a, b). Point a b) ` ({0..<grower_width g} \<times> {0..<grower_height g})"
      by (rule imageI)
    then show "p \<in> (\<lambda>(a, b). Point a b) ` ({0..<grower_width g} \<times> {0..<grower_height g})"
      by simp
  qed
  then show ?thesis
    by (rule finite_subset) simp
qed

lemma finite_universe: "finite (universe g st)"
  by (simp add: universe_def finite_valid_points)

lemma least_item_mem: "least_item a q \<in> insert a (set q)"
  by (induction q arbitrary: a) (auto split: if_splits)

lemma pq_top_mem: "q \<noteq> [] \<Longrightarrow> pq_top q \<in> set q"
  using least_item_mem [of "hd q" "tl q"] by (cases q) (auto simp: pq_top_def)

lemma set_pq_pop: "set (pq_pop q) \<subseteq> set q"
  by (simp add: pq_pop_def set_remove1_subset)

lemma length_pq_pop: "q \<noteq> [] \<Longrightarrow> length (pq_pop q) < length q"
  by (simp add: pq_pop_def length_remove1 pq_top_mem)

lemma getNeighbors_valid: "p \<in> set (getNeighbors g x y c) \<Longrightarrow> p \<in> valid_points g"
  by (simp add: getNeighbors_def valid_points_def)

lemma grow_neighbor_points:
  "point ` set (fst (grow_neighbor g sc cc t pr reg nb qc)) \<subseteq> insert nb (point ` set (fst qc))"
  by (cases qc) (auto simp: grow_neighbor_def pq_push_def Let_def split: prod.splits)

lemma fold_grow_neighbor_points:
  "point ` set (fst (fold (grow_neighbor g sc cc t pr reg) nbs qc)) \<subseteq> set nbs \<union> point ` set (fst qc)"
proof (induction nbs arbitrary: qc)
  case Nil
  then show ?case by simp
next
  case (Cons nb nbs)
  show ?case
    using Cons [of "grow_neighbor g sc cc t pr reg nb qc"] grow_neighbor_points [of g sc cc t pr reg nb qc]
    by auto
qed

lemma grow_step_cases:
  assumes "grow_step g sc bt pr st = Some st'" "priorityQueue st \<noteq> []"
  shows "(region st' = region st \<and> set (priorityQueue st') \<subseteq> set (priorityQueue st)
            \<and> length (priorityQueue st') < length (priorityQueue st))
       \<or> (\<exists>p. p \<in> point ` set (priorityQueue st) \<and> p \<notin> region st \<and> region st' = insert p (region st)
            \<and> point ` set (priorityQueue st') \<subseteq> point ` set (priorityQueue st) \<union> valid_points g)"
proof -
  let ?q = "priorityQueue st"
  let ?p = "point (pq_top ?q)"
  have mem: "?p \<in> point ` set ?q"
    using assms(2) by (simp add: pq_top_mem)
  show ?thesis
  proof (cases "?p \<in> region st \<or> processed_at pr ?p")
    case True
    with assms have "st' = st\<lparr>priorityQueue := pq_pop ?q\<rparr>"
      by (auto simp: grow_step_def Let_def)
    then show ?thesis
      using assms(2) by (simp add: set_pq_pop length_pq_pop)
  next
    case False
    obtain s c1 where gc: "getCachedSimilarity (similarityCache st) sc (getPixel (m_image g) (pt_x ?p) (pt_y ?p)) = (s, c1)"
      by (cases "getCachedSimilarity (similarityCache st) sc (getPixel (m_image g) (pt_x ?p) (pt_y ?p))")
    from assms(1) False gc obtain t where t: "adaptiveThreshold_at g bt ?p = Some t"
      by (auto simp: grow_step_def Let_def split: option.splits)
    show ?thesis
    proof (cases "s \<ge> t")
      case True
      let ?f = "fold (grow_neighbor g sc (getPixel (m_image g) (pt_x ?p) (pt_y ?p)) t pr (insert ?p (region st)))
                  (getNeighbors g (pt_x ?p) (pt_y ?p) True) (pq_pop ?q, c1)"
      from assms(1) False gc t True have st': "region st' = insert ?p (region st)" "priorityQueue st' = fst ?f"
        by (auto simp: grow_step_def Let_def split: prod.splits)
      have "point ` set (fst ?f) \<subseteq> set (getNeighbors g (pt_x ?p) (pt_y ?p) True) \<union> point ` set (pq_pop ?q)"
        using fold_grow_neighbor_points [of g sc _ t pr _ _ "(pq_pop ?q, c1)"] by simp
      also have "\<dots> \<subseteq> valid_points g \<union> point ` set ?q"
        using getNeighbors_valid set_pq_pop [of ?q] by blast
      finally have "point ` set (priorityQueue st') \<subseteq> point ` set ?q \<union> valid_points g"
        by (simp add: st'(2) Un_commute)
      with st'(1) mem \<open>\<not> (?p \<in> region st \<or> processed_at pr ?p)\<close> show ?thesis
        by (intro disjI2 exI [of _ ?p]) simp
    next
      case False
      with assms(1) \<open>\<not> (?p \<in> region st \<or> processed_at pr ?p)\<close> gc t
      have "st' = st\<lparr>priorityQueue := pq_pop ?q, similarityCache := c1\<rparr>"
        by (auto simp: grow_step_def Let_def)
      then show ?thesis
        using assms(2) by (simp add: set_pq_pop length_pq_pop)
    qed
  qed
qed

definition loop_measure :: "RegionGrower \<Rightarrow> GrowState \<Rightarrow> nat \<times> nat" where
  "loop_measure g st = (card (universe g st - region st), length (priorityQueue st))"

lemma grow_step_decreases:
  assumes "grow_step g sc bt pr st = Some st'" "priorityQueue st \<noteq> []"
  shows "(loop_measure g st', loop_measure g st) \<in> less_than <*lex*> less_than"
  using grow_step_cases [OF assms]
proof (elim disjE exE conjE)
  assume a: "region st' = region st" "set (priorityQueue st') \<subseteq> set (priorityQueue st)"
    "length (priorityQueue st') < length (priorityQueue st)"
  have "universe g st' - region st' \<subseteq> universe g st - region st"
    using a by (auto simp: universe_def)
  then have "card (universe g st' - region st') \<le> card (universe g st - region st)"
    by (intro card_mono) (simp_all add: finite_universe)
  with a(3) show ?thesis
    by (auto simp: loop_measure_def)
next
  fix p
  assume a: "p \<in> point ` set (priorityQueue st)" "p \<notin> region st" "region st' = insert p (region st)"
    "point ` set (priorityQueue st') \<subseteq> point ` set (priorityQueue st) \<union> valid_points g"
  have "universe g st' - region st' \<subset> universe g st - region st"
    using a by (auto simp: universe_def)
  then have "card (universe g st' - region st') < card (universe g st - region st)"
    by (intro psubset_card_mono) (simp_all add: finite_universe)
  then show ?thesis
    by (simp add: loop_measure_def)
qed

function grow_loop ::
  "RegionGrower \<Rightarrow> Color \<Rightarrow> real \<Rightarrow> processedMask \<Rightarrow> GrowState \<Rightarrow> GrowState option" where
  "grow_loop g seedColor baseThreshold processed st =
     (if loop_condition g st
      then (case grow_step g seedColor baseThreshold processed st of
              None \<Rightarrow> None
            | Some st' \<Rightarrow> grow_loop g seedColor baseThreshold processed st')
      else Some st)"
  by pat_completeness auto
termination
proof (relation "inv_image (less_than <*lex*> less_than) (\<lambda>(g, sc, bt, pr, st). loop_measure g st)")
  show "wf (inv_image (less_than <*lex*> less_than) (\<lambda>(g, sc, bt, pr, st). loop_measure g st))"
    by (intro wf_inv_image wf_lex_prod wf_less_than)
next
  fix g seedColor baseThreshold processed st st'
  assume "loop_condition g st" "grow_step g seedColor baseThreshold processed st = Some st'"
  then show "((g, seedColor, baseThreshold, processed, st'), (g, seedColor, baseThreshold, processed, st))
      \<in> inv_image (less_than <*lex*> less_than) (\<lambda>(g, sc, bt, pr, st). loop_measure g st)"
    using grow_step_decreases [of g seedColor baseThreshold processed st st']
    by (simp add: loop_condition_def)
qed

text \<open>
  \<^verbatim>\<open>AdaptiveRegionGrower::findRegion\<close>. The result is the vector \<^verbatim>\<open>regionList\<close>
  together with the cache as the call leaves it; \<open>None\<close> is a trap in
  \<^verbatim>\<open>calculateAdaptiveThreshold\<close>.
\<close>

definition findRegion ::
  "RegionGrower \<Rightarrow> similarityCache \<Rightarrow> int \<Rightarrow> int \<Rightarrow> processedMask
     \<Rightarrow> (Point list \<times> similarityCache) option" where
  "findRegion g cache seedX seedY processed =
     (let seedColor = getPixel (m_image g) seedX seedY;
          seedPoint = Point seedX seedY;
          (q, cache1) = fold (seed_neighbor g seedColor processed)
                          (getNeighbors g seedX seedY True) ([], cache)
      in case baseAdaptiveThreshold g seedX seedY of
           None \<Rightarrow> None
         | Some baseThreshold \<Rightarrow>
             (case grow_loop g seedColor baseThreshold processed
                     \<lparr>region = {seedPoint}, regionList = [seedPoint],
                      priorityQueue = q, similarityCache = cache1\<rparr> of
                None \<Rightarrow> None
              | Some st \<Rightarrow> Some (regionList st, similarityCache st)))"

declare grow_loop.simps [simp del]

section \<open>Notions of the specification\<close>

text \<open>
  The integer-truncated arithmetic mean of one channel over a list of colours, in
  unbounded arithmetic.
\<close>

definition chan_sum :: "(Color \<Rightarrow> u8) \<Rightarrow> Color list \<Rightarrow> nat" where
  "chan_sum f colors = (\<Sum>c\<leftarrow>colors. unat (f c))"

definition mean_channel :: "(Color \<Rightarrow> u8) \<Rightarrow> Color list \<Rightarrow> nat" where
  "mean_channel f colors = chan_sum f colors div length colors"

text \<open>
  The order-normalised pair of two colours (the smaller by \<open>(r, g, b)\<close> first), the
  consistency of a cache with the metric, and the caches a grower can hold: the empty one
  of the constructor, changed by \<^verbatim>\<open>getCachedSimilarity\<close> only.
\<close>

definition ordered_pair :: "Color \<Rightarrow> Color \<Rightarrow> Color \<times> Color" where
  "ordered_pair c1 c2 = (if color_less c2 c1 then (c2, c1) else (c1, c2))"

definition cache_ok :: "similarityCache \<Rightarrow> bool" where
  "cache_ok cache \<longleftrightarrow> (\<forall>a b v. cache (cache_key a b) = Some v \<longrightarrow> v = colorSimilarity a b)"

inductive reachable_cache :: "similarityCache \<Rightarrow> bool" where
  fresh: "reachable_cache Map.empty"
| query: "reachable_cache cache \<Longrightarrow> reachable_cache (snd (getCachedSimilarity cache c1 c2))"

text \<open>
  The \<open>(2 * radius + 1)\<^sup>2\<close> window around \<open>(x, y)\<close>, row by row, clipped to the
  image; the mean colour of a list of colours (each channel the truncated mean); the
  channel-wise variance about that mean, normalised by \<open>3 * 255\<^sup>2\<close>; and the adjusted
  threshold \<open>base + (1 - base) * (1 - min 1 (variance * 2)) * 0.3\<close>.
\<close>

definition window_spec :: "RegionGrower \<Rightarrow> int \<Rightarrow> int \<Rightarrow> int \<Rightarrow> Point list" where
  "window_spec g x y radius =
     filter (\<lambda>p. isValidCoordinate g (pt_x p) (pt_y p))
       (concat (map (\<lambda>ly. map (\<lambda>lx. Point lx ly) [x - radius..x + radius]) [y - radius..y + radius]))"

definition mean_color :: "Color list \<Rightarrow> Color" where
  "mean_color colors =
     Color (word_of_nat (mean_channel col_r colors)) (word_of_nat (mean_channel col_g colors))
       (word_of_nat (mean_channel col_b colors))"

definition squared_deviation :: "Color \<Rightarrow> Color \<Rightarrow> real" where
  "squared_deviation m c =
     (channel_diff (col_r c) (col_r m))\<^sup>2 + (channel_diff (col_g c) (col_g m))\<^sup>2
       + (channel_diff (col_b c) (col_b m))\<^sup>2"

definition color_variance :: "Color list \<Rightarrow> real" where
  "color_variance colors =
     (\<Sum>c\<leftarrow>colors. squared_deviation (mean_color colors) c) / real (length colors) / (3 * 255\<^sup>2)"

definition adaptive_threshold_spec :: "real \<Rightarrow> Color list \<Rightarrow> real" where
  "adaptive_threshold_spec base colors =
     base + (1 - base) * (1 - min 1 (color_variance colors * 2)) * 0.3"

text \<open>
  The candidate that one iteration of the growth loop pops, and its colour.
\<close>

definition current_point :: "GrowState \<Rightarrow> Point" where
  "current_point st = point (pq_top (priorityQueue st))"

definition current_color :: "RegionGrower \<Rightarrow> GrowState \<Rightarrow> Color" where
  "current_color g st = getPixel (m_image g) (pt_x (current_point st)) (pt_y (current_point st))"

text \<open>
  The threshold that governs a candidate: in adaptive mode the minimum of the threshold
  computed at the seed and the one computed at the candidate, else the configured one.
\<close>

definition acceptance_threshold :: "RegionGrower \<Rightarrow> real \<Rightarrow> real \<Rightarrow> real" where
  "acceptance_threshold g seedThreshold localThreshold =
     (if m_adaptiveMode g then min seedThreshold localThreshold else m_similarityThreshold g)"

text \<open>
  For a neighbour of an accepted candidate: the better of its similarities to the seed
  colour and to the candidate's colour; whether it is queued (not in the region, not
  processed, and that similarity at least 0.8 times the threshold); the item queued for it.
\<close>

definition best_similarity :: "RegionGrower \<Rightarrow> Color \<Rightarrow> Color \<Rightarrow> Point \<Rightarrow> real" where
  "best_similarity g seedColor currentColor nb =
     max (colorSimilarity seedColor (getPixel (m_image g) (pt_x nb) (pt_y nb)))
         (colorSimilarity currentColor (getPixel (m_image g) (pt_x nb) (pt_y nb)))"

definition admitted ::
  "RegionGrower \<Rightarrow> Color \<Rightarrow> Color \<Rightarrow> real \<Rightarrow> processedMask \<Rightarrow> Point set \<Rightarrow> Point \<Rightarrow> bool" where
  "admitted g seedColor currentColor threshold processed reg nb \<longleftrightarrow>
     nb \<notin> reg \<and> \<not> processed_at processed nb
     \<and> best_similarity g seedColor currentColor nb \<ge> threshold * 0.8"

definition queue_item :: "RegionGrower \<Rightarrow> Color \<Rightarrow> Color \<Rightarrow> Point \<Rightarrow> PriorityItem" where
  "queue_item g seedColor currentColor nb =
     PriorityItem (1 - best_similarity g seedColor currentColor nb) nb
       (best_similarity g seedColor currentColor nb)"

text \<open>The item queued for an unprocessed neighbour of the seed.\<close>

definition seed_item :: "RegionGrower \<Rightarrow> Color \<Rightarrow> Point \<Rightarrow> PriorityItem" where
  "seed_item g seedColor nb =
     PriorityItem (1 - colorSimilarity seedColor (getPixel (m_image g) (pt_x nb) (pt_y nb))) nb
       (colorSimilarity seedColor (getPixel (m_image g) (pt_x nb) (pt_y nb)))"

text \<open>
  What holds of the state of the growth loop at every iteration: the set and the vector
  hold the same points, without repetition, the seed among them; every point is a valid
  coordinate that the mask does not mark; every queued point is a valid coordinate; and
  the vector is no longer than the cap (or than 1, the seed, when the cap is smaller).
\<close>

definition region_inv :: "RegionGrower \<Rightarrow> processedMask \<Rightarrow> Point \<Rightarrow> GrowState \<Rightarrow> bool" where
  "region_inv g processed seed st \<longleftrightarrow>
     region st = set (regionList st) \<and> distinct (regionList st) \<and> seed \<in> set (regionList st)
     \<and> (\<forall>p\<in>set (regionList st). p \<in> valid_points g \<and> \<not> processed_at processed p)
     \<and> (\<forall>item\<in>set (priorityQueue st). point item \<in> valid_points g)
     \<and> length (regionList st) \<le> max 1 (size_t_of_int (m_maxRegionSize g))"

text \<open>
  For the scenario of two uniform halves: the colour at a point; an image is \<open>sharp\<close>
  for a seed colour when every pixel either has that colour or is less similar to it than
  the configured threshold; the state of the loop then keeps \<open>component_inv\<close>: the cache
  holds metric values, every point of the region has the seed colour, and every
  unprocessed neighbour of a region point that has the seed colour is in the region or in
  the queue. \<open>half_of\<close> is the half of the 4 by 4 grid on the side of the seed column.
\<close>

definition pixel_of :: "RegionGrower \<Rightarrow> Point \<Rightarrow> Color" where
  "pixel_of g p = getPixel (m_image g) (pt_x p) (pt_y p)"

definition sharp :: "RegionGrower \<Rightarrow> Color \<Rightarrow> bool" where
  "sharp g seedColor \<longleftrightarrow>
     m_similarityThreshold g \<le> 1
     \<and> (\<forall>p\<in>valid_points g. pixel_of g p = seedColor
            \<or> colorSimilarity seedColor (pixel_of g p) < m_similarityThreshold g)"

definition component_inv :: "RegionGrower \<Rightarrow> processedMask \<Rightarrow> Color \<Rightarrow> GrowState \<Rightarrow> bool" where
  "component_inv g processed seedColor st \<longleftrightarrow>
     cache_ok (similarityCache st)
     \<and> (\<forall>p\<in>region st. pixel_of g p = seedColor)
     \<and> (\<forall>p\<in>region st. \<forall>nb\<in>set (getNeighbors g (pt_x p) (pt_y p) True).
           pixel_of g nb = seedColor \<and> \<not> processed_at processed nb \<longrightarrow>
           nb \<in> region st \<or> nb \<in> point ` set (priorityQueue st))"

text \<open>
  The region without a cap, in the words of the spec (``0 = unbounded''): the growth loop
  of \<^verbatim>\<open>findRegion\<close> with the test on the size of the region removed, so that it runs
  until the queue is empty. It is compared below with the loop of the source.
\<close>

function grow_loop_uncapped ::
  "RegionGrower \<Rightarrow> Color \<Rightarrow> real \<Rightarrow> processedMask \<Rightarrow> GrowState \<Rightarrow> GrowState option" where
  "grow_loop_uncapped g seedColor baseThreshold processed st =
     (if priorityQueue st \<noteq> []
      then (case grow_step g seedColor baseThreshold processed st of
              None \<Rightarrow> None
            | Some st' \<Rightarrow> grow_loop_uncapped g seedColor baseThreshold processed st')
      else Some st)"
  by pat_completeness auto
termination
proof (relation "inv_image (less_than <*lex*> less_than) (\<lambda>(g, sc, bt, pr, st). loop_measure g st)")
  show "wf (inv_image (less_than <*lex*> less_than) (\<lambda>(g, sc, bt, pr, st). loop_measure g st))"
    by (intro wf_inv_image wf_lex_prod wf_less_than)
next
  fix g seedColor baseThreshold processed st st'
  assume "priorityQueue st \<noteq> []" "grow_step g seedColor baseThreshold processed st = Some st'"
  then show "((g, seedColor, baseThreshold, processed, st'), (g, seedColor, baseThreshold, processed, st))
      \<in> inv_image (less_than <*lex*> less_than) (\<lambda>(g, sc, bt, pr, st). loop_measure g st)"
    using grow_step_decreases [of g seedColor baseThreshold processed st st']
    by simp
qed

declare grow_loop_uncapped.simps [simp del]

definition findRegion_uncapped ::
  "RegionGrower \<Rightarrow> similarityCache \<Rightarrow> int \<Rightarrow> int \<Rightarrow> processedMask
     \<Rightarrow> (Point list \<times> similarityCache) option" where
  "findRegion_uncapped g cache seedX seedY processed =
     (let seedColor = getPixel (m_image g) seedX seedY;
          seedPoint = Point seedX seedY;
          (q, cache1) = fold (seed_neighbor g seedColor processed)
                          (getNeighbors g seedX seedY True) ([], cache)
      in case baseAdaptiveThreshold g seedX seedY of
           None \<Rightarrow> None
         | Some baseThreshold \<Rightarrow>
             (case grow_loop_uncapped g seedColor baseThreshold processed
                     \<lparr>region = {seedPoint}, regionList = [seedPoint],
                      priorityQueue = q, similarityCache = cache1\<rparr> of
                None \<Rightarrow> None
              | Some st \<Rightarrow> Some (regionList st, similarityCache st)))"

definition result_of :: "GrowState \<Rightarrow> Point list \<times> similarityCache" where
  "result_of st = (regionList st, similarityCache st)"

definition half_of :: "int \<Rightarrow> Point set" where
  "half_of seedX = {p. pt_x p \<in> {0, 1, 2, 3} \<and> pt_y p \<in> {0, 1, 2, 3} \<and> (pt_x p < 2 \<longleftrightarrow> seedX < 2)}"

text \<open>Example inputs.\<close>

definition uniform_image :: Image where
  "uniform_image = \<lparr>m_width = 2, m_height = 1, m_pixels = [Color 255 0 0, Color 255 0 0]\<rparr>"

definition uniform_grower :: "int \<Rightarrow> RegionGrower" where
  "uniform_grower cap = \<lparr>m_image = uniform_image, m_similarityThreshold = 0.9,
     m_maxRegionSize = cap, m_adaptiveMode = True\<rparr>"

definition example_state :: GrowState where
  "example_state = \<lparr>region = {Point 0 0}, regionList = [Point 0 0],
     priorityQueue = [PriorityItem 0 (Point 1 0) 1], similarityCache = Map.empty\<rparr>"

definition white_row :: "int \<Rightarrow> Image" where
  "white_row n = \<lparr>m_width = n, m_height = 1, m_pixels = replicate (nat n) (Color 255 255 255)\<rparr>"

definition white_row_grower :: "int \<Rightarrow> RegionGrower" where
  "white_row_grower n = \<lparr>m_image = white_row n, m_similarityThreshold = 0.9,
     m_maxRegionSize = 0, m_adaptiveMode = True\<rparr>"

definition halves_image :: Image where
  "halves_image = \<lparr>m_width = 4, m_height = 4,
     m_pixels = concat (replicate 4 [Color 255 0 0, Color 255 0 0, Color 0 0 255, Color 0 0 255])\<rparr>"

definition halves_grower :: "int \<Rightarrow> RegionGrower" where
  "halves_grower cap = \<lparr>m_image = halves_image, m_similarityThreshold = 0.9,
     m_maxRegionSize = cap, m_adaptiveMode = True\<rparr>"

definition no_mask :: "nat \<Rightarrow> nat \<Rightarrow> processedMask" where
  "no_mask w h = replicate h (replicate w False)"

definition white_image :: Image where
  "white_image = \<lparr>m_width = 1, m_height = 1, m_pixels = [Color 255 255 255]\<rparr>"

definition example_image :: Image where
  "example_image = \<lparr>m_width = 2, m_height = 1, m_pixels = [Color 255 0 0, Color 0 0 255]\<rparr>"

section \<open>Pixel access\<close>

lemma getIndex_less:
  assumes "image_ok img" "0 \<le> x" "x < m_width img" "0 \<le> y" "y < m_height img"
  shows "getIndex img x y < length (m_pixels img)"
proof -
  have "y * m_width img + x < (y + 1) * m_width img"
    using assms by (simp add: algebra_simps)
  also have "\<dots> \<le> m_height img * m_width img"
    using assms by (intro mult_right_mono) auto
  finally have "y * m_width img + x < m_width img * m_height img"
    by (simp add: mult.commute)
  moreover have "0 \<le> y * m_width img + x"
    using assms by simp
  ultimately show ?thesis
    using assms(1) by (simp add: getIndex_def image_ok_def nat_less_iff)
qed

lemma getIndex_inj:
  assumes "0 \<le> x" "x < m_width img" "0 \<le> y" "0 \<le> x'" "x' < m_width img" "0 \<le> y'"
    and "getIndex img x y = getIndex img x' y'"
  shows "x = x' \<and> y = y'"
proof -
  let ?w = "m_width img"
  have nn: "0 \<le> y * ?w + x" "0 \<le> y' * ?w + x'"
    using assms by simp_all
  with assms(7) have eq: "y * ?w + x = y' * ?w + x'"
    by (simp add: getIndex_def)
  have "(y * ?w + x) div ?w = y" "(y' * ?w + x') div ?w = y'"
    using assms by simp_all
  with eq have "y = y'" by simp
  with eq show ?thesis by simp
qed

text \<open>
  Claim C9. Outside \<open>[0,width) \<times> [0,height)\<close> a read gives black and a write leaves the
  image as it is; inside (for an image that satisfies the class invariant) a read gives
  the stored pixel, and a write changes that pixel and no other, nor the dimensions.
\<close>

theorem pixel_access_bounds:
  "(x < 0 \<or> m_width img \<le> x \<or> y < 0 \<or> m_height img \<le> y \<longrightarrow>
      getPixel img x y = Color 0 0 0 \<and> setPixel img x y c = img)
   \<and> (0 \<le> x \<and> x < m_width img \<and> 0 \<le> y \<and> y < m_height img \<longrightarrow>
      getPixel img x y = m_pixels img ! getIndex img x y
      \<and> (image_ok img \<longrightarrow>
           getPixel (setPixel img x y c) x y = c
         \<and> m_width (setPixel img x y c) = m_width img
         \<and> m_height (setPixel img x y c) = m_height img
         \<and> (\<forall>x' y'. (x', y') \<noteq> (x, y) \<longrightarrow>
               getPixel (setPixel img x y c) x' y' = getPixel img x' y')))"
proof (intro conjI impI allI)
  assume "x < 0 \<or> m_width img \<le> x \<or> y < 0 \<or> m_height img \<le> y"
  then show "getPixel img x y = Color 0 0 0" "setPixel img x y c = img"
    by (auto simp: getPixel_def setPixel_def Color_default_def)
next
  assume inb: "0 \<le> x \<and> x < m_width img \<and> 0 \<le> y \<and> y < m_height img"
  then show "getPixel img x y = m_pixels img ! getIndex img x y"
    by (simp add: getPixel_def)
  from inb show "m_width (setPixel img x y c) = m_width img"
    "m_height (setPixel img x y c) = m_height img"
    by (simp_all add: setPixel_def)
  assume ok: "image_ok img"
  from inb ok have lt: "getIndex img x y < length (m_pixels img)"
    by (simp add: getIndex_less)
  with inb show "getPixel (setPixel img x y c) x y = c"
    by (simp add: getPixel_def setPixel_def getIndex_def)
  fix x' y'
  assume ne: "(x', y') \<noteq> (x, y)"
  show "getPixel (setPixel img x y c) x' y' = getPixel img x' y'"
  proof (cases "x' < 0 \<or> m_width img \<le> x' \<or> y' < 0 \<or> m_height img \<le> y'")
    case True
    with inb show ?thesis
      by (simp add: getPixel_def setPixel_def)
  next
    case False
    with inb ne have "getIndex img x y \<noteq> getIndex img x' y'"
      using getIndex_inj [of x img y x' y'] by auto
    with inb False show ?thesis
      by (simp add: getPixel_def setPixel_def getIndex_def)
  qed
qed

theorem pixel_access_bounds_witness:
  "getPixel example_image 5 0 = Color 0 0 0
   \<and> setPixel example_image 5 0 (Color 9 9 9) = example_image
   \<and> image_ok example_image
   \<and> getPixel example_image 1 0 = Color 0 0 255
   \<and> getPixel (setPixel example_image 1 0 (Color 9 9 9)) 1 0 = Color 9 9 9
   \<and> getPixel (setPixel example_image 1 0 (Color 9 9 9)) 0 0 = Color 255 0 0"
proof -
  have ok: "image_ok example_image"
    by (simp add: example_image_def image_ok_def)
  have out: "(5::int) < 0 \<or> m_width example_image \<le> 5 \<or> (0::int) < 0 \<or> m_height example_image \<le> 0"
    by (simp add: example_image_def)
  have inb: "(0::int) \<le> 1 \<and> 1 < m_width example_image \<and> (0::int) \<le> 0 \<and> 0 < m_height example_image"
    by (simp add: example_image_def)
  have a: "getPixel example_image 5 0 = Color 0 0 0
      \<and> setPixel example_image 5 0 (Color 9 9 9) = example_image"
    using pixel_access_bounds [of 5 example_image 0 "Color 9 9 9"] out by blast
  have b: "getPixel (setPixel example_image 1 0 (Color 9 9 9)) 1 0 = Color 9 9 9
      \<and> getPixel (setPixel example_image 1 0 (Color 9 9 9)) 0 0 = getPixel example_image 0 0"
    using pixel_access_bounds [of 1 example_image 0 "Color 9 9 9"] inb ok by auto
  have c: "getPixel example_image 1 0 = Color 0 0 255" "getPixel example_image 0 0 = Color 255 0 0"
    by (simp_all add: example_image_def getPixel_def getIndex_def)
  show ?thesis
    using ok a b c by simp
qed

section \<open>The average colour\<close>

lemma fold_add_color:
  "fold add_color cs (a, b, c) =
     (a + word_of_nat (chan_sum col_r cs), b + word_of_nat (chan_sum col_g cs),
      c + word_of_nat (chan_sum col_b cs))"
  by (induction cs arbitrary: a b c) (simp_all add: chan_sum_def add_color_def add.assoc)

lemma channel_totals_eq:
  "channel_totals cs =
     (word_of_nat (chan_sum col_r cs), word_of_nat (chan_sum col_g cs),
      word_of_nat (chan_sum col_b cs))"
  by (simp add: channel_totals_def fold_add_color)

lemma chan_sum_le: "chan_sum f cs \<le> 255 * length cs"
proof (induction cs)
  case Nil
  then show ?case by (simp add: chan_sum_def)
next
  case (Cons c cs)
  have "unat (f c) < 2 ^ 8"
    using unsigned_less [of "f c"] by simp
  then have "unat (f c) \<le> 255" by simp
  with Cons show ?case by (simp add: chan_sum_def)
qed

lemma word_of_int_size_to_int: "(word_of_int (size_to_int n) :: u32) = word_of_nat n"
  by (simp add: size_to_int_def)

lemma unat_total_div:
  assumes "s < 2 ^ 32" "n < 2 ^ 32" "0 < n" "s \<le> 255 * n"
  shows "unat (ucast ((word_of_nat s :: u32) div word_of_nat n) :: u8) = s div n"
proof -
  have s: "unat (word_of_nat s :: u32) = s"
    using assms(1) by (simp add: unat_of_nat)
  have n: "unat (word_of_nat n :: u32) = n"
    using assms(2) by (simp add: unat_of_nat)
  have d: "unat ((word_of_nat s :: u32) div word_of_nat n) = s div n"
    by (simp add: unat_div s n)
  have "s div n \<le> 255"
    using assms(3,4) by (metis div_le_mono nonzero_mult_div_cancel_right less_numeral_extra(3))
  then have "s div n < 2 ^ 8" by simp
  then show ?thesis
    by (simp add: unsigned_ucast_eq d take_bit_eq_mod)
qed

lemma calculateAverageColor_pixels:
  "calculateAverageColor points img = (if points = [] then Some Color_default
      else average_of_totals (channel_totals (pixels_at img points)) (size_to_int (length points)))"
  by (simp add: calculateAverageColor_def pixels_at_def)

lemma average_small:
  assumes "points \<noteq> []" "length points \<le> 16843009"
  shows "\<exists>c. calculateAverageColor points img = Some c
    \<and> unat (col_r c) = mean_channel col_r (pixels_at img points)
    \<and> unat (col_g c) = mean_channel col_g (pixels_at img points)
    \<and> unat (col_b c) = mean_channel col_b (pixels_at img points)"
proof -
  let ?cs = "pixels_at img points"
  let ?n = "length points"
  have len: "length ?cs = ?n" by (simp add: pixels_at_def)
  have n: "0 < ?n" "?n < 2 ^ 32" using assms by simp_all
  have s: "chan_sum f ?cs < 2 ^ 32" "chan_sum f ?cs \<le> 255 * ?n" for f
    using chan_sum_le [of f ?cs] assms(2) by (simp_all add: len)
  have nz: "(word_of_nat ?n :: u32) \<noteq> 0"
    using n of_nat_inverse [of ?n "0 :: u32"] by auto
  show ?thesis
    using assms(1) nz unat_total_div [OF s(1) n(2) n(1) s(2)]
    by (simp add: calculateAverageColor_pixels average_of_totals_def channel_totals_eq
        word_of_int_size_to_int mean_channel_def len Let_def)
qed

lemma pixels_at_white: "pixels_at white_image (replicate n (Point 0 0)) = replicate n (Color 255 255 255)"
  by (simp add: pixels_at_def getPixel_def white_image_def getIndex_def)

lemma chan_sum_replicate: "chan_sum f (replicate n c) = n * unat (f c)"
  by (simp add: chan_sum_def sum_list_replicate)

lemma replicate_nonempty: "0 < n \<Longrightarrow> replicate n x \<noteq> []"
  by simp

lemma channel_totals_wrap:
  "channel_totals (replicate 16843010 (Color 255 255 255)) = (254, 254, 254)"
  unfolding channel_totals_eq chan_sum_replicate by simp

lemma average_of_totals_wrap:
  "average_of_totals (254, 254, 254) (size_to_int 16843010) = Some (Color 0 0 0)"
proof -
  have c: "(word_of_int (size_to_int 16843010) :: u32) = 16843010"
    unfolding word_of_int_size_to_int by simp
  show ?thesis
    unfolding average_of_totals_def c by (simp add: word_div_def)
qed

lemma average_wrap:
  "calculateAverageColor (replicate 16843010 (Point 0 0)) white_image = Some (Color 0 0 0)"
proof -
  have ne: "replicate 16843010 (Point 0 0) \<noteq> []"
    by (rule replicate_nonempty) simp
  show ?thesis
    unfolding calculateAverageColor_pixels pixels_at_white length_replicate
      channel_totals_wrap average_of_totals_wrap
    using ne by (simp only: if_False)
qed

lemma mean_white: "mean_channel col_r (pixels_at white_image (replicate 16843010 (Point 0 0))) = 255"
  unfolding pixels_at_white mean_channel_def chan_sum_replicate length_replicate by simp

text \<open>
  Claim C7, as amended. For an empty list the result is black. For a non-empty list of at
  most 16,843,009 points the result is the colour whose channels are the integer-truncated
  arithmetic means of the channels of the listed pixels (a point outside the image counts
  as black, as \<^verbatim>\<open>getPixel\<close> reads it).
\<close>

theorem average_color_truncated_mean:
  "calculateAverageColor [] img = Some (Color 0 0 0)
   \<and> (points \<noteq> [] \<and> length points \<le> 16843009 \<longrightarrow>
        (\<exists>c. calculateAverageColor points img = Some c
           \<and> unat (col_r c) = mean_channel col_r (pixels_at img points)
           \<and> unat (col_g c) = mean_channel col_g (pixels_at img points)
           \<and> unat (col_b c) = mean_channel col_b (pixels_at img points)))"
  using average_small [of points img]
  by (simp add: calculateAverageColor_def Color_default_def)

theorem average_color_truncated_mean_witness:
  "[Point 0 0, Point 1 0] \<noteq> [] \<and> length [Point 0 0, Point 1 0] \<le> 16843009
   \<and> (\<exists>c. calculateAverageColor [Point 0 0, Point 1 0] example_image = Some c
          \<and> unat (col_r c) = 127 \<and> unat (col_g c) = 0 \<and> unat (col_b c) = 127)"
proof -
  have px: "pixels_at example_image [Point 0 0, Point 1 0] = [Color 255 0 0, Color 0 0 255]"
    by (simp add: pixels_at_def example_image_def getPixel_def getIndex_def)
  have m: "mean_channel col_r [Color 255 0 0, Color 0 0 255] = 127"
    "mean_channel col_g [Color 255 0 0, Color 0 0 255] = 0"
    "mean_channel col_b [Color 255 0 0, Color 0 0 255] = 127"
    by (simp_all add: mean_channel_def chan_sum_def numeral_2_eq_2 [symmetric])
  show ?thesis
    using average_color_truncated_mean [of example_image "[Point 0 0, Point 1 0]"]
    by (simp add: px m)
qed

text \<open>
  Claim C7 as stated fails: 16,843,010 white pixels (the one pixel of a white 1 by 1 image,
  listed that often) have channel sums \<open>255 * 16843010 = 2^32 + 254\<close>, the 32-bit totals
  hold 254, and the result is black although every channel mean is 255.
\<close>

theorem average_color_counterexample:
  "replicate 16843010 (Point 0 0) \<noteq> []
   \<and> set (replicate 16843010 (Point 0 0)) = {Point 0 0}
   \<and> getPixel white_image 0 0 = m_pixels white_image ! getIndex white_image 0 0
   \<and> calculateAverageColor (replicate 16843010 (Point 0 0)) white_image = Some (Color 0 0 0)
   \<and> mean_channel col_r (pixels_at white_image (replicate 16843010 (Point 0 0))) = 255"
proof -
  have "replicate 16843010 (Point 0 0) \<noteq> []"
    by (rule replicate_nonempty) simp
  moreover have "set (replicate 16843010 (Point 0 0)) = {Point 0 0}"
    by (simp only: set_replicate_conv_if) simp
  moreover have "getPixel white_image 0 0 = m_pixels white_image ! getIndex white_image 0 0"
    by (simp add: getPixel_def white_image_def)
  ultimately show ?thesis
    using average_wrap mean_white by simp
qed

text \<open>
  Claim C10. The totals are the channel sums modulo \<open>2^32\<close>; 16,843,009 is the largest
  number of points for which \<open>255 * n < 2^32\<close>; up to that length the result is the
  truncated mean; and one point more can wrap the sums and give another colour.
\<close>

theorem average_color_sums_wrap:
  "(case channel_totals colors of (totalR, totalG, totalB) \<Rightarrow>
        unat totalR = chan_sum col_r colors mod 2 ^ 32
      \<and> unat totalG = chan_sum col_g colors mod 2 ^ 32
      \<and> unat totalB = chan_sum col_b colors mod 2 ^ 32)
   \<and> (255 * 16843009 < (2::nat) ^ 32 \<and> (2::nat) ^ 32 \<le> 255 * 16843010)
   \<and> (points \<noteq> [] \<and> length points \<le> 16843009 \<longrightarrow>
        (\<exists>c. calculateAverageColor points img = Some c
           \<and> unat (col_r c) = mean_channel col_r (pixels_at img points)
           \<and> unat (col_g c) = mean_channel col_g (pixels_at img points)
           \<and> unat (col_b c) = mean_channel col_b (pixels_at img points)))
   \<and> (calculateAverageColor (replicate 16843010 (Point 0 0)) white_image = Some (Color 0 0 0)
        \<and> mean_channel col_r (pixels_at white_image (replicate 16843010 (Point 0 0))) = 255)"
proof -
  have "case channel_totals colors of (totalR, totalG, totalB) \<Rightarrow>
        unat totalR = chan_sum col_r colors mod 2 ^ 32
      \<and> unat totalG = chan_sum col_g colors mod 2 ^ 32
      \<and> unat totalB = chan_sum col_b colors mod 2 ^ 32"
    by (simp add: channel_totals_eq unat_of_nat)
  moreover have "255 * 16843009 < (2::nat) ^ 32 \<and> (2::nat) ^ 32 \<le> 255 * 16843010"
    by simp
  ultimately show ?thesis
    using average_small [of points img] average_wrap mean_white by simp
qed

theorem average_color_sums_wrap_witness:
  "[Point 1 0] \<noteq> [] \<and> length [Point 1 0] \<le> 16843009
   \<and> (\<exists>c. calculateAverageColor [Point 1 0] example_image = Some c
          \<and> unat (col_r c) = 0 \<and> unat (col_g c) = 0 \<and> unat (col_b c) = 255)"
proof -
  have px: "pixels_at example_image [Point 1 0] = [Color 0 0 255]"
    by (simp add: pixels_at_def example_image_def getPixel_def getIndex_def)
  have m: "mean_channel col_r [Color 0 0 255] = 0" "mean_channel col_g [Color 0 0 255] = 0"
    "mean_channel col_b [Color 0 0 255] = 255"
    by (simp_all add: mean_channel_def chan_sum_def)
  show ?thesis
    using average_color_sums_wrap [of "[]" "[Point 1 0]" example_image]
    by (simp add: px m)
qed

section \<open>Colour similarity\<close>

lemma colorSimilarity_sym: "colorSimilarity c1 c2 = colorSimilarity c2 c1"
proof -
  have "(a - b) * (a - b) = (b - a) * (b - a)" for a b :: real
    by (simp add: algebra_simps)
  then show ?thesis
    by (simp add: colorSimilarity_def channel_diff_def Let_def)
qed

lemma channel_diff_zero_iff: "channel_diff a b = 0 \<longleftrightarrow> a = b"
proof -
  have "channel_diff a b = 0 \<longleftrightarrow> real (unat a) = real (unat b)"
    unfolding channel_diff_def by linarith
  also have "\<dots> \<longleftrightarrow> unat a = unat b"
    by (rule of_nat_eq_iff)
  also have "\<dots> \<longleftrightarrow> a = b"
    by (rule word_unat_eq_iff [symmetric])
  finally show ?thesis .
qed

lemma colorSimilarity_eq_1_iff: "colorSimilarity c1 c2 = 1 \<longleftrightarrow> c1 = c2"
proof -
  let ?dr = "channel_diff (col_r c1) (col_r c2)"
  let ?dg = "channel_diff (col_g c1) (col_g c2)"
  let ?db = "channel_diff (col_b c1) (col_b c2)"
  have "colorSimilarity c1 c2 = 1 \<longleftrightarrow> sqrt (?dr * ?dr + ?dg * ?dg + ?db * ?db) = 0"
    by (simp add: colorSimilarity_def Let_def maxDistance_def)
  also have "\<dots> \<longleftrightarrow> ?dr * ?dr + ?dg * ?dg + ?db * ?db = 0"
    by simp
  also have "\<dots> \<longleftrightarrow> ?dr = 0 \<and> ?dg = 0 \<and> ?db = 0"
    by (metis (no_types, opaque_lifting) add_nonneg_eq_0_iff add_nonneg_nonneg mult_eq_0_iff zero_le_square mult_zero_left add.right_neutral)
  also have "\<dots> \<longleftrightarrow> c1 = c2"
    by (auto simp: channel_diff_zero_iff intro: Color.expand)
  finally show ?thesis .
qed

lemma colorSimilarity_le_1: "colorSimilarity c1 c2 \<le> 1"
  by (simp add: colorSimilarity_def Let_def maxDistance_def)

lemma sqrt_exceeds_maxDistance: "maxDistance < sqrt (255\<^sup>2 * 3)"
proof -
  have "(441.67::real)\<^sup>2 < 255\<^sup>2 * 3"
    by (simp add: power2_eq_square)
  then show ?thesis
    unfolding maxDistance_def by (rule real_less_rsqrt)
qed

text \<open>
  Claim C3 fails on the code. The constant of the source, 441.67, is smaller than
  \<open>sqrt (255\<^sup>2 * 3)\<close>, so black against white is at a distance larger than
  \<open>maxDistance\<close> and its similarity is negative: not 0, and outside \<open>[0,1]\<close>.
\<close>

theorem colorSimilarity_black_white:
  "colorSimilarity (Color 0 0 0) (Color 255 255 255) < 0"
proof -
  have "(441.67::real)\<^sup>2 < 195075"
    by (simp add: power2_eq_square)
  then have "441.67 < sqrt 195075"
    by (rule real_less_rsqrt)
  then show ?thesis
    by (simp add: colorSimilarity_def channel_diff_def Let_def maxDistance_def)
qed

section \<open>The similarity cache\<close>

lemma of_char_digit_char: "d < 10 \<Longrightarrow> (of_char (digit_char d) :: nat) = 48 + d"
  by (simp add: digit_char_def)

lemma digit_char_inj:
  assumes "digit_char a = digit_char b" "a < 10" "b < 10"
  shows "a = b"
proof -
  have "(of_char (digit_char a) :: nat) = of_char (digit_char b)"
    by (simp only: assms(1))
  then have "48 + a = 48 + b"
    by (simp only: of_char_digit_char [OF assms(2)] of_char_digit_char [OF assms(3)])
  then show ?thesis by simp
qed

lemma digit_char_not_sep:
  assumes "d < 10"
  shows "digit_char d \<noteq> CHR ''-'' \<and> digit_char d \<noteq> CHR ''_''"
proof -
  have "(of_char (digit_char d) :: nat) \<noteq> of_char CHR ''-''"
    "(of_char (digit_char d) :: nat) \<noteq> of_char CHR ''_''"
    using assms by (simp_all add: of_char_digit_char)
  then show ?thesis by metis
qed

lemma to_string_digits: "c \<in> set (to_string n) \<Longrightarrow> \<exists>d<10. c = digit_char d"
proof (induction n rule: to_string.induct)
  case (1 n)
  show ?case
  proof (cases "n < 10")
    case True
    with 1(2) show ?thesis by (auto simp: to_string.simps [of n])
  next
    case False
    with 1 show ?thesis
      by (auto simp: to_string.simps [of n] intro: exI [of _ "n mod 10"])
  qed
qed

lemma to_string_no_sep: "CHR ''-'' \<notin> set (to_string n)" "CHR ''_'' \<notin> set (to_string n)"
  using to_string_digits digit_char_not_sep by metis+

lemma to_string_nonempty: "to_string n \<noteq> []"
  by (subst to_string.simps) simp

lemma to_string_inj: "to_string n = to_string m \<Longrightarrow> n = m"
proof (induction n arbitrary: m rule: to_string.induct)
  case (1 n)
  show ?case
  proof (cases "n < 10")
    case True
    then have n: "to_string n = [digit_char n]"
      by (simp add: to_string.simps [of n])
    have "m < 10"
    proof (rule ccontr)
      assume "\<not> m < 10"
      then have "to_string m = to_string (m div 10) @ [digit_char (m mod 10)]"
        by (simp add: to_string.simps [of m])
      with n 1(2) show False
        by (simp add: to_string_nonempty)
    qed
    then have "to_string m = [digit_char m]"
      by (simp add: to_string.simps [of m])
    with n 1(2) True \<open>m < 10\<close> show ?thesis
      by (simp add: digit_char_inj)
  next
    case False
    then have n: "to_string n = to_string (n div 10) @ [digit_char (n mod 10)]"
      by (simp add: to_string.simps [of n])
    have "\<not> m < 10"
    proof
      assume "m < 10"
      then have "to_string m = [digit_char m]"
        by (simp add: to_string.simps [of m])
      with n 1(2) show False
        using to_string_nonempty [of "n div 10"] by simp
    qed
    then have m: "to_string m = to_string (m div 10) @ [digit_char (m mod 10)]"
      by (simp add: to_string.simps [of m])
    from n m 1(2) have "to_string (n div 10) = to_string (m div 10)"
      and d: "digit_char (n mod 10) = digit_char (m mod 10)"
      by simp_all
    then have "n div 10 = m div 10"
      using 1(1) False by simp
    moreover have "n mod 10 = m mod 10"
      using d by (simp add: digit_char_inj)
    ultimately show ?thesis
      by (metis div_mult_mod_eq)
  qed
qed

lemma split_at_separator:
  assumes "xs @ s # ys = xs' @ s # ys'" "s \<notin> set xs" "s \<notin> set xs'"
  shows "xs = xs' \<and> ys = ys'"
  using assms
proof (induction xs arbitrary: xs')
  case Nil
  then show ?case by (cases xs') auto
next
  case (Cons x xs)
  then show ?case by (cases xs') auto
qed

lemma color_string_inj:
  assumes "color_string a = color_string b"
  shows "a = b"
proof -
  let ?r = "\<lambda>c. to_string (unat (col_r c))"
  let ?g = "\<lambda>c. to_string (unat (col_g c))"
  let ?b = "\<lambda>c. to_string (unat (col_b c))"
  from assms have e: "?r a @ CHR ''-'' # (?g a @ CHR ''-'' # ?b a) = ?r b @ CHR ''-'' # (?g b @ CHR ''-'' # ?b b)"
    by (simp add: color_string_def)
  then have r: "?r a = ?r b" and e2: "?g a @ CHR ''-'' # ?b a = ?g b @ CHR ''-'' # ?b b"
    using split_at_separator [OF e] by (simp_all add: to_string_no_sep)
  then have g: "?g a = ?g b" and b: "?b a = ?b b"
    using split_at_separator [OF e2] by (simp_all add: to_string_no_sep)
  from r g b have "unat (col_r a) = unat (col_r b)" "unat (col_g a) = unat (col_g b)"
    "unat (col_b a) = unat (col_b b)"
    by (simp_all add: to_string_inj)
  then show ?thesis
    by (intro Color.expand) (simp add: word_unat_eq_iff)
qed

lemma color_string_no_underscore: "CHR ''_'' \<notin> set (color_string c)"
  by (simp add: color_string_def to_string_no_sep)

lemma cache_key_ordered:
  "cache_key c1 c2 = color_string (fst (ordered_pair c1 c2)) @ ''_'' @ color_string (snd (ordered_pair c1 c2))"
  by (simp add: cache_key_def ordered_pair_def Let_def)

lemma color_less_total: "c1 \<noteq> c2 \<Longrightarrow> color_less c1 c2 \<or> color_less c2 c1"
  by (cases c1; cases c2) (auto simp: color_less_def)

lemma color_less_asym: "color_less c1 c2 \<Longrightarrow> \<not> color_less c2 c1"
  by (auto simp: color_less_def)

lemma ordered_pair_sym: "ordered_pair c1 c2 = ordered_pair c2 c1"
  using color_less_total [of c1 c2] color_less_asym [of c1 c2] color_less_asym [of c2 c1]
  by (auto simp: ordered_pair_def)

lemma cache_key_sym: "cache_key c1 c2 = cache_key c2 c1"
  by (simp add: cache_key_ordered ordered_pair_sym [of c1 c2])

lemma cache_key_inj:
  assumes "cache_key a b = cache_key c d"
  shows "ordered_pair a b = ordered_pair c d"
proof -
  from assms have "color_string (fst (ordered_pair a b)) @ CHR ''_'' # color_string (snd (ordered_pair a b))
      = color_string (fst (ordered_pair c d)) @ CHR ''_'' # color_string (snd (ordered_pair c d))"
    by (simp add: cache_key_ordered)
  then have "color_string (fst (ordered_pair a b)) = color_string (fst (ordered_pair c d))
      \<and> color_string (snd (ordered_pair a b)) = color_string (snd (ordered_pair c d))"
    by (rule split_at_separator) (simp_all add: color_string_no_underscore)
  then show ?thesis
    by (simp add: color_string_inj prod_eq_iff)
qed

lemma same_key_same_similarity:
  assumes "cache_key a b = cache_key c d"
  shows "colorSimilarity a b = colorSimilarity c d"
proof -
  have "ordered_pair a b = ordered_pair c d"
    using assms by (rule cache_key_inj)
  then have "(a = c \<and> b = d) \<or> (a = d \<and> b = c)"
    by (auto simp: ordered_pair_def split: if_splits)
  then show ?thesis
    using colorSimilarity_sym [of c d] by auto
qed

lemma cache_ok_empty: "cache_ok Map.empty"
  by (simp add: cache_ok_def)

lemma getCachedSimilarity_value:
  "cache_ok cache \<Longrightarrow> fst (getCachedSimilarity cache c1 c2) = colorSimilarity c1 c2"
  by (auto simp: getCachedSimilarity_def cache_ok_def Let_def split: option.splits)

lemma getCachedSimilarity_cache_ok:
  assumes "cache_ok cache"
  shows "cache_ok (snd (getCachedSimilarity cache c1 c2))"
proof (cases "cache (cache_key c1 c2)")
  case (Some v)
  then show ?thesis
    using assms by (simp add: getCachedSimilarity_def)
next
  case None
  then have upd: "snd (getCachedSimilarity cache c1 c2) = cache(cache_key c1 c2 \<mapsto> colorSimilarity c1 c2)"
    by (simp add: getCachedSimilarity_def Let_def)
  show ?thesis
    unfolding cache_ok_def upd
  proof (intro allI impI)
    fix a b v
    assume v: "(cache(cache_key c1 c2 \<mapsto> colorSimilarity c1 c2)) (cache_key a b) = Some v"
    show "v = colorSimilarity a b"
    proof (cases "cache_key a b = cache_key c1 c2")
      case True
      with v have "v = colorSimilarity c1 c2" by simp
      with True show ?thesis
        by (simp add: same_key_same_similarity [of a b c1 c2])
    next
      case False
      with v have "cache (cache_key a b) = Some v" by simp
      with assms show ?thesis
        by (simp add: cache_ok_def)
    qed
  qed
qed

lemma reachable_cache_ok: "reachable_cache cache \<Longrightarrow> cache_ok cache"
  by (induction rule: reachable_cache.induct) (simp_all add: cache_ok_empty getCachedSimilarity_cache_ok)

text \<open>
  Claim C8. In every cache state a grower can reach, a query returns the value of
  \<^verbatim>\<open>colorSimilarity\<close> for the pair, whatever the order of the arguments and whatever was
  queried before; the key is built from the order-normalised pair, determines that pair,
  and every stored value is the metric's value for its pair.
\<close>

theorem cached_similarity_order_independent:
  assumes "reachable_cache cache"
  shows "fst (getCachedSimilarity cache c1 c2) = colorSimilarity c1 c2
     \<and> fst (getCachedSimilarity cache c2 c1) = colorSimilarity c1 c2
     \<and> fst (getCachedSimilarity (snd (getCachedSimilarity cache c1 c2)) c2 c1) = colorSimilarity c1 c2
     \<and> cache_key c1 c2 = cache_key c2 c1
     \<and> cache_key c1 c2 = color_string (fst (ordered_pair c1 c2)) @ ''_'' @ color_string (snd (ordered_pair c1 c2))
     \<and> (\<forall>a b v. cache (cache_key a b) = Some v \<longrightarrow> v = colorSimilarity a b)
     \<and> (\<forall>a b. cache_key a b = cache_key c1 c2 \<longrightarrow> (a = c1 \<and> b = c2) \<or> (a = c2 \<and> b = c1))"
proof -
  have ok: "cache_ok cache"
    using assms by (rule reachable_cache_ok)
  have ok': "cache_ok (snd (getCachedSimilarity cache c1 c2))"
    using ok by (rule getCachedSimilarity_cache_ok)
  have inj: "(a = c1 \<and> b = c2) \<or> (a = c2 \<and> b = c1)" if "cache_key a b = cache_key c1 c2" for a b
    using cache_key_inj [OF that] by (auto simp: ordered_pair_def split: if_splits)
  have 1: "fst (getCachedSimilarity cache c1 c2) = colorSimilarity c1 c2"
    using ok by (rule getCachedSimilarity_value)
  have 2: "fst (getCachedSimilarity cache c2 c1) = colorSimilarity c1 c2"
    using getCachedSimilarity_value [OF ok, of c2 c1] by (simp add: colorSimilarity_sym [of c2 c1])
  have 3: "fst (getCachedSimilarity (snd (getCachedSimilarity cache c1 c2)) c2 c1) = colorSimilarity c1 c2"
    using getCachedSimilarity_value [OF ok', of c2 c1] by (simp add: colorSimilarity_sym [of c2 c1])
  have 4: "\<forall>a b v. cache (cache_key a b) = Some v \<longrightarrow> v = colorSimilarity a b"
    using ok by (simp add: cache_ok_def)
  have 5: "\<forall>a b. cache_key a b = cache_key c1 c2 \<longrightarrow> (a = c1 \<and> b = c2) \<or> (a = c2 \<and> b = c1)"
    using inj by blast
  show ?thesis
    using 1 2 3 4 5 cache_key_sym [of c1 c2] cache_key_ordered [of c1 c2]
    by (intro conjI) assumption+
qed

theorem cached_similarity_order_independent_witness:
  "reachable_cache (snd (getCachedSimilarity Map.empty (Color 255 0 0) (Color 0 0 255)))
   \<and> fst (getCachedSimilarity (snd (getCachedSimilarity Map.empty (Color 255 0 0) (Color 0 0 255)))
            (Color 0 0 255) (Color 255 0 0))
       = colorSimilarity (Color 255 0 0) (Color 0 0 255)"
proof -
  have r: "reachable_cache (snd (getCachedSimilarity Map.empty (Color 255 0 0) (Color 0 0 255)))"
    by (intro reachable_cache.intros)
  show ?thesis
    using r cached_similarity_order_independent [OF r, of "Color 255 0 0" "Color 0 0 255"]
    by simp
qed

section \<open>The adaptive threshold never traps on the image\<close>

lemma length_concat_rows:
  "length (concat (map (\<lambda>y. map (f y) xs) ys)) = length ys * length xs"
  by (induction ys) simp_all

lemma length_localColors:
  "length (localColors g x y radius) =
     nat (min (grower_height g - 1) (y + radius) - max 0 (y - radius) + 1)
   * nat (min (grower_width g - 1) (x + radius) - max 0 (x - radius) + 1)"
  by (simp add: localColors_def Let_def length_concat_rows)

lemma localColors_bounds:
  assumes "isValidCoordinate g x y" "0 \<le> radius"
  shows "0 < length (localColors g x y radius)"
    and "length (localColors g x y radius) \<le> nat ((2 * radius + 1)\<^sup>2)"
proof -
  let ?h = "min (grower_height g - 1) (y + radius) - max 0 (y - radius) + 1"
  let ?w = "min (grower_width g - 1) (x + radius) - max 0 (x - radius) + 1"
  have h: "1 \<le> ?h" "?h \<le> 2 * radius + 1" and w: "1 \<le> ?w" "?w \<le> 2 * radius + 1"
    using assms by (auto simp: isValidCoordinate_def)
  have len: "length (localColors g x y radius) = nat ?h * nat ?w"
    by (rule length_localColors)
  from h w show "0 < length (localColors g x y radius)"
    by (simp add: len)
  have "nat ?h * nat ?w \<le> nat (2 * radius + 1) * nat (2 * radius + 1)"
    using h w by (intro mult_le_mono) simp_all
  also have "\<dots> = nat ((2 * radius + 1)\<^sup>2)"
    using assms(2) by (simp add: power2_eq_square nat_mult_distrib)
  finally show "length (localColors g x y radius) \<le> nat ((2 * radius + 1)\<^sup>2)"
    by (simp add: len)
qed

lemma average_of_totals_Some:
  assumes "0 < n" "n < 2 ^ 32"
  shows "\<exists>c. average_of_totals t (size_to_int n) = Some c"
proof -
  have "(word_of_nat n :: u32) \<noteq> 0"
    using assms of_nat_inverse [of n "0 :: u32"] by auto
  then show ?thesis
    by (cases t) (simp add: average_of_totals_def word_of_int_size_to_int Let_def)
qed

lemma calculateAdaptiveThreshold_Some:
  assumes "isValidCoordinate g x y" "0 \<le> radius" "radius \<le> 2051"
  shows "\<exists>t. calculateAdaptiveThreshold g x y radius = Some t"
proof -
  let ?n = "length (localColors g x y radius)"
  have "(2 * radius + 1)\<^sup>2 \<le> 4103\<^sup>2"
    using assms(2,3) by (intro power_mono) simp_all
  then have "nat ((2 * radius + 1)\<^sup>2) \<le> 16834609"
    by simp
  with localColors_bounds [OF assms(1,2)] have "0 < ?n" "?n < 2 ^ 32"
    by simp_all
  then obtain c where "average_of_totals (channel_totals (localColors g x y radius)) (size_to_int ?n) = Some c"
    using average_of_totals_Some by blast
  then show ?thesis
    by (simp add: calculateAdaptiveThreshold_def Let_def)
qed

lemma adaptiveThreshold_at_Some:
  assumes "isValidCoordinate g (pt_x p) (pt_y p)"
  shows "\<exists>t. adaptiveThreshold_at g bt p = Some t"
  using calculateAdaptiveThreshold_Some [OF assms, of 3]
  by (auto simp: adaptiveThreshold_at_def)

lemma baseAdaptiveThreshold_Some:
  assumes "isValidCoordinate g x y"
  shows "\<exists>t. baseAdaptiveThreshold g x y = Some t"
  using calculateAdaptiveThreshold_Some [OF assms, of 3]
  by (auto simp: baseAdaptiveThreshold_def)

section \<open>The region that \<^verbatim>\<open>findRegion\<close> returns\<close>

lemma grow_step_skip:
  assumes "current_point st \<in> region st \<or> processed_at processed (current_point st)"
  shows "grow_step g sc bt processed st = Some (st\<lparr>priorityQueue := pq_pop (priorityQueue st)\<rparr>)"
  using assms by (auto simp: grow_step_def current_point_def Let_def)

lemma grow_step_reject:
  assumes "current_point st \<notin> region st" "\<not> processed_at processed (current_point st)"
    and "getCachedSimilarity (similarityCache st) sc (current_color g st) = (s, c1)"
    and "adaptiveThreshold_at g bt (current_point st) = Some t" "\<not> s \<ge> t"
  shows "grow_step g sc bt processed st
       = Some (st\<lparr>priorityQueue := pq_pop (priorityQueue st), similarityCache := c1\<rparr>)"
  using assms by (simp add: grow_step_def current_point_def current_color_def Let_def)

lemma grow_step_accept:
  assumes "current_point st \<notin> region st" "\<not> processed_at processed (current_point st)"
    and "getCachedSimilarity (similarityCache st) sc (current_color g st) = (s, c1)"
    and "adaptiveThreshold_at g bt (current_point st) = Some t" "s \<ge> t"
    and "fold (grow_neighbor g sc (current_color g st) t processed (insert (current_point st) (region st)))
           (getNeighbors g (pt_x (current_point st)) (pt_y (current_point st)) True)
           (pq_pop (priorityQueue st), c1) = (q', c2)"
  shows "grow_step g sc bt processed st
       = Some \<lparr>region = insert (current_point st) (region st),
               regionList = regionList st @ [current_point st],
               priorityQueue = q', similarityCache = c2\<rparr>"
  using assms by (simp add: grow_step_def current_point_def current_color_def Let_def)

lemma region_inv_queue:
  assumes "region_inv g processed seed st"
    and "\<forall>item\<in>set q. point item \<in> valid_points g"
  shows "region_inv g processed seed (st\<lparr>priorityQueue := q, similarityCache := c\<rparr>)"
    and "region_inv g processed seed (st\<lparr>priorityQueue := q\<rparr>)"
  using assms unfolding region_inv_def by simp_all

lemma region_inv_accept:
  assumes "region_inv g processed seed st"
    and "\<forall>item\<in>set q. point item \<in> valid_points g"
    and "p \<in> valid_points g" "p \<notin> region st" "\<not> processed_at processed p"
    and "card (region st) < size_t_of_int (m_maxRegionSize g)"
  shows "region_inv g processed seed
           \<lparr>region = insert p (region st), regionList = regionList st @ [p],
            priorityQueue = q, similarityCache = c\<rparr>"
proof -
  from assms(1) have r: "region st = set (regionList st)" and d: "distinct (regionList st)"
    unfolding region_inv_def by simp_all
  then have "card (region st) = length (regionList st)"
    by (simp add: distinct_card)
  with assms(6) have "length (regionList st @ [p]) \<le> max 1 (size_t_of_int (m_maxRegionSize g))"
    by simp
  moreover from assms(4) r have "p \<notin> set (regionList st)"
    by simp
  ultimately show ?thesis
    using assms(1,2,3,5) unfolding region_inv_def by auto
qed

lemma points_valid_from_neighbors:
  assumes "point ` set q' \<subseteq> set (getNeighbors g x y c) \<union> point ` set q"
    and "\<forall>item\<in>set q. point item \<in> valid_points g"
  shows "\<forall>item\<in>set q'. point item \<in> valid_points g"
proof
  fix item
  assume "item \<in> set q'"
  with assms(1) have "point item \<in> set (getNeighbors g x y c) \<or> point item \<in> point ` set q"
    by auto
  then show "point item \<in> valid_points g"
    using assms(2) getNeighbors_valid [of "point item" g x y c] by auto
qed

lemma grow_step_inv:
  assumes inv: "region_inv g processed seed st" and cond: "loop_condition g st"
  shows "\<exists>st'. grow_step g sc bt processed st = Some st' \<and> region_inv g processed seed st'"
proof -
  let ?q = "priorityQueue st"
  let ?p = "current_point st"
  let ?cc = "current_color g st"
  from cond have ne: "?q \<noteq> []" and cap: "card (region st) < size_t_of_int (m_maxRegionSize g)"
    by (simp_all add: loop_condition_def)
  from inv have qv: "\<forall>item\<in>set ?q. point item \<in> valid_points g"
    unfolding region_inv_def by simp
  have valid: "?p \<in> valid_points g"
    unfolding current_point_def using qv ne pq_top_mem [of ?q] by blast
  have popq: "\<forall>item\<in>set (pq_pop ?q). point item \<in> valid_points g"
    using qv set_pq_pop [of ?q] by blast
  show ?thesis
  proof (cases "?p \<in> region st \<or> processed_at processed ?p")
    case True
    then have "grow_step g sc bt processed st = Some (st\<lparr>priorityQueue := pq_pop ?q\<rparr>)"
      by (rule grow_step_skip)
    with region_inv_queue(2) [OF inv popq] show ?thesis
      by blast
  next
    case False
    then have np: "?p \<notin> region st" "\<not> processed_at processed ?p"
      by simp_all
    obtain s c1 where gc: "getCachedSimilarity (similarityCache st) sc ?cc = (s, c1)"
      by (cases "getCachedSimilarity (similarityCache st) sc ?cc")
    have "isValidCoordinate g (pt_x ?p) (pt_y ?p)"
      using valid by (simp add: valid_points_def)
    then obtain t where t: "adaptiveThreshold_at g bt ?p = Some t"
      using adaptiveThreshold_at_Some by blast
    show ?thesis
    proof (cases "s \<ge> t")
      case no: False
      have "grow_step g sc bt processed st
          = Some (st\<lparr>priorityQueue := pq_pop ?q, similarityCache := c1\<rparr>)"
        by (rule grow_step_reject [OF np gc t no])
      with region_inv_queue(1) [OF inv popq] show ?thesis
        by blast
    next
      case yes: True
      let ?f = "fold (grow_neighbor g sc ?cc t processed (insert ?p (region st)))
                  (getNeighbors g (pt_x ?p) (pt_y ?p) True) (pq_pop ?q, c1)"
      obtain q' c2 where f: "?f = (q', c2)"
        by (cases ?f)
      have step: "grow_step g sc bt processed st
          = Some \<lparr>region = insert ?p (region st), regionList = regionList st @ [?p],
                  priorityQueue = q', similarityCache = c2\<rparr>"
        by (rule grow_step_accept [OF np gc t yes f])
      have "point ` set (fst ?f) \<subseteq> set (getNeighbors g (pt_x ?p) (pt_y ?p) True) \<union> point ` set (fst (pq_pop ?q, c1))"
        by (rule fold_grow_neighbor_points)
      then have "point ` set q' \<subseteq> set (getNeighbors g (pt_x ?p) (pt_y ?p) True) \<union> point ` set (pq_pop ?q)"
        by (simp add: f)
      then have q': "\<forall>item\<in>set q'. point item \<in> valid_points g"
        using popq by (rule points_valid_from_neighbors)
      from step region_inv_accept [OF inv q' valid np cap] show ?thesis
        by blast
    qed
  qed
qed

lemma grow_loop_inv:
  "region_inv g processed seed st \<Longrightarrow>
     \<exists>st'. grow_loop g sc bt processed st = Some st' \<and> region_inv g processed seed st'
        \<and> \<not> loop_condition g st'"
proof (induction g sc bt processed st rule: grow_loop.induct)
  case (1 g sc bt processed st)
  show ?case
  proof (cases "loop_condition g st")
    case True
    then obtain st1 where st1: "grow_step g sc bt processed st = Some st1"
      "region_inv g processed seed st1"
      using grow_step_inv [OF "1.prems"] by blast
    from "1.IH" [OF True st1] obtain st' where
      "grow_loop g sc bt processed st1 = Some st'" "region_inv g processed seed st'"
      "\<not> loop_condition g st'"
      by blast
    with True st1(1) show ?thesis
      by (simp add: grow_loop.simps [of g sc bt processed st])
  next
    case False
    with "1.prems" show ?thesis
      by (simp add: grow_loop.simps [of g sc bt processed st])
  qed
qed

lemma seed_neighbor_points:
  "point ` set (fst (seed_neighbor g sc pr nb qc)) \<subseteq> insert nb (point ` set (fst qc))"
  by (cases qc) (auto simp: seed_neighbor_def pq_push_def Let_def split: prod.splits)

lemma fold_seed_neighbor_points:
  "point ` set (fst (fold (seed_neighbor g sc pr) nbs qc)) \<subseteq> set nbs \<union> point ` set (fst qc)"
proof (induction nbs arbitrary: qc)
  case Nil
  then show ?case by simp
next
  case (Cons nb nbs)
  show ?case
    using Cons [of "seed_neighbor g sc pr nb qc"] seed_neighbor_points [of g sc pr nb qc]
    by auto
qed

lemma findRegion_unfold:
  assumes "fold (seed_neighbor g (getPixel (m_image g) seedX seedY) processed)
             (getNeighbors g seedX seedY True) ([], cache) = (q, cache1)"
    and "baseAdaptiveThreshold g seedX seedY = Some bt"
  shows "findRegion g cache seedX seedY processed
       = map_option (\<lambda>st. (regionList st, similarityCache st))
           (grow_loop g (getPixel (m_image g) seedX seedY) bt processed
              \<lparr>region = {Point seedX seedY}, regionList = [Point seedX seedY],
               priorityQueue = q, similarityCache = cache1\<rparr>)"
  using assms by (simp add: findRegion_def Let_def split: option.splits)

lemma findRegion_inv:
  assumes "isValidCoordinate g seedX seedY" "\<not> processed_at processed (Point seedX seedY)"
  shows "\<exists>st. findRegion g cache seedX seedY processed = Some (regionList st, similarityCache st)
           \<and> region_inv g processed (Point seedX seedY) st \<and> \<not> loop_condition g st"
proof -
  let ?sc = "getPixel (m_image g) seedX seedY"
  obtain q cache1 where q: "fold (seed_neighbor g ?sc processed)
      (getNeighbors g seedX seedY True) ([], cache) = (q, cache1)"
    by (cases "fold (seed_neighbor g ?sc processed) (getNeighbors g seedX seedY True) ([], cache)")
  obtain bt where bt: "baseAdaptiveThreshold g seedX seedY = Some bt"
    using baseAdaptiveThreshold_Some [OF assms(1)] by blast
  let ?st0 = "\<lparr>region = {Point seedX seedY}, regionList = [Point seedX seedY],
               priorityQueue = q, similarityCache = cache1\<rparr>"
  have "point ` set q \<subseteq> set (getNeighbors g seedX seedY True) \<union> point ` set []"
    using fold_seed_neighbor_points [of g ?sc processed "getNeighbors g seedX seedY True" "([], cache)"] q
    by simp
  then have "\<forall>item\<in>set q. point item \<in> valid_points g"
    by (rule points_valid_from_neighbors) simp
  then have "region_inv g processed (Point seedX seedY) ?st0"
    using assms by (simp add: region_inv_def valid_points_def)
  then obtain st' where "grow_loop g ?sc bt processed ?st0 = Some st'"
    "region_inv g processed (Point seedX seedY) st'" "\<not> loop_condition g st'"
    using grow_loop_inv by blast
  then show ?thesis
    using findRegion_unfold [OF q bt] by auto
qed

text \<open>
  Claim C6. Started at a valid coordinate that the mask does not mark, \<^verbatim>\<open>findRegion\<close>
  returns (it neither traps nor runs forever), and the returned vector contains the seed,
  contains only valid coordinates, contains no point that the mask marks, and has no
  repetition.
\<close>

theorem findRegion_region_sound:
  assumes "isValidCoordinate g seedX seedY" "\<not> processed_at processed (Point seedX seedY)"
  shows "\<exists>R cache'. findRegion g cache seedX seedY processed = Some (R, cache')
           \<and> Point seedX seedY \<in> set R
           \<and> (\<forall>p\<in>set R. isValidCoordinate g (pt_x p) (pt_y p))
           \<and> (\<forall>p\<in>set R. \<not> processed_at processed p)
           \<and> distinct R"
  using findRegion_inv [OF assms, of cache]
  by (auto simp: region_inv_def valid_points_def)

theorem findRegion_region_sound_witness:
  "isValidCoordinate (uniform_grower 2) 0 0 \<and> \<not> processed_at [[False, False]] (Point 0 0)
   \<and> (\<exists>R cache'. findRegion (uniform_grower 2) Map.empty 0 0 [[False, False]] = Some (R, cache')
          \<and> Point 0 0 \<in> set R \<and> distinct R)"
proof -
  have v: "isValidCoordinate (uniform_grower 2) 0 0"
    by (simp add: isValidCoordinate_def grower_width_def grower_height_def
        uniform_grower_def uniform_image_def)
  have u: "\<not> processed_at [[False, False]] (Point 0 0)"
    by (simp add: processed_at_def)
  show ?thesis
    using v u findRegion_region_sound [OF v u, of Map.empty] by blast
qed

lemma findRegion_size_cap:
  assumes "isValidCoordinate g seedX seedY" "\<not> processed_at processed (Point seedX seedY)"
    and "0 < m_maxRegionSize g" "m_maxRegionSize g < 2 ^ 31"
    and "findRegion g cache seedX seedY processed = Some (R, cache')"
  shows "int (length R) \<le> m_maxRegionSize g"
proof -
  have "size_t_of_int (m_maxRegionSize g) = nat (m_maxRegionSize g)"
    using assms(3,4) by (simp add: size_t_of_int_def)
  with assms(3) have "max 1 (size_t_of_int (m_maxRegionSize g)) = nat (m_maxRegionSize g)"
    by simp
  then show ?thesis
    using findRegion_inv [OF assms(1,2), of cache] assms(5)
    by (auto simp: region_inv_def)
qed

section \<open>One iteration of the growth loop\<close>

lemma getCachedSimilarity_pure:
  assumes "cache_ok cache" "getCachedSimilarity cache c1 c2 = (s, cache')"
  shows "s = colorSimilarity c1 c2" "cache_ok cache'"
  using getCachedSimilarity_value [OF assms(1), of c1 c2]
    getCachedSimilarity_cache_ok [OF assms(1), of c1 c2] assms(2)
  by simp_all

lemma grow_neighbor_pure:
  assumes "cache_ok cache"
  shows "fst (grow_neighbor g sc cc t pr reg nb (q, cache))
           = (if admitted g sc cc t pr reg nb then q @ [queue_item g sc cc nb] else q)
       \<and> cache_ok (snd (grow_neighbor g sc cc t pr reg nb (q, cache)))"
proof (cases "nb \<in> reg \<or> processed_at pr nb")
  case True
  then show ?thesis
    using assms by (auto simp: grow_neighbor_def admitted_def)
next
  case False
  let ?nc = "getPixel (m_image g) (pt_x nb) (pt_y nb)"
  obtain s1 c1 where 1: "getCachedSimilarity cache sc ?nc = (s1, c1)"
    by (cases "getCachedSimilarity cache sc ?nc")
  obtain s2 c2 where 2: "getCachedSimilarity c1 cc ?nc = (s2, c2)"
    by (cases "getCachedSimilarity c1 cc ?nc")
  have s1: "s1 = colorSimilarity sc ?nc" and ok1: "cache_ok c1"
    using getCachedSimilarity_pure [OF assms 1] by simp_all
  have s2: "s2 = colorSimilarity cc ?nc" and ok2: "cache_ok c2"
    using getCachedSimilarity_pure [OF ok1 2] by simp_all
  have "grow_neighbor g sc cc t pr reg nb (q, cache)
      = (if max s1 s2 \<ge> t * 0.8 then (pq_push q (PriorityItem (1 - max s1 s2) nb (max s1 s2)), c2)
         else (q, c2))"
    using False 1 2 by (simp add: grow_neighbor_def Let_def)
  then show ?thesis
    using False ok2
    by (simp add: admitted_def queue_item_def best_similarity_def pq_push_def s1 s2)
qed

lemma fold_grow_neighbor_pure:
  assumes "cache_ok cache"
  shows "fst (fold (grow_neighbor g sc cc t pr reg) nbs (q, cache))
           = q @ map (queue_item g sc cc) (filter (admitted g sc cc t pr reg) nbs)
       \<and> cache_ok (snd (fold (grow_neighbor g sc cc t pr reg) nbs (q, cache)))"
  using assms
proof (induction nbs arbitrary: q cache)
  case Nil
  then show ?case by simp
next
  case (Cons nb nbs)
  obtain q1 c1 where 1: "grow_neighbor g sc cc t pr reg nb (q, cache) = (q1, c1)"
    by (cases "grow_neighbor g sc cc t pr reg nb (q, cache)")
  with grow_neighbor_pure [OF Cons.prems, of g sc cc t pr reg nb q]
  have q1: "q1 = (if admitted g sc cc t pr reg nb then q @ [queue_item g sc cc nb] else q)"
    and ok: "cache_ok c1"
    by simp_all
  show ?case
    using Cons.IH [OF ok, of q1] by (simp add: 1 q1)
qed

lemma grow_step_pure:
  assumes "cache_ok (similarityCache st)"
    and "priorityQueue st \<noteq> []"
    and "current_point st \<notin> region st" "\<not> processed_at processed (current_point st)"
    and "isValidCoordinate g (pt_x (current_point st)) (pt_y (current_point st))"
    and "baseAdaptiveThreshold g seedX seedY = Some seedThreshold"
  shows "\<exists>st' localThreshold.
       calculateAdaptiveThreshold g (pt_x (current_point st)) (pt_y (current_point st)) 3 = Some localThreshold
     \<and> (m_adaptiveMode g \<longrightarrow> calculateAdaptiveThreshold g seedX seedY 3 = Some seedThreshold)
     \<and> grow_step g seedColor seedThreshold processed st = Some st'
     \<and> (current_point st \<in> region st' \<longleftrightarrow>
           colorSimilarity seedColor (current_color g st) \<ge> acceptance_threshold g seedThreshold localThreshold)
     \<and> (if colorSimilarity seedColor (current_color g st) \<ge> acceptance_threshold g seedThreshold localThreshold
         then region st' = insert (current_point st) (region st)
            \<and> regionList st' = regionList st @ [current_point st]
            \<and> priorityQueue st' = pq_pop (priorityQueue st)
                 @ map (queue_item g seedColor (current_color g st))
                     (filter (admitted g seedColor (current_color g st)
                                (acceptance_threshold g seedThreshold localThreshold) processed
                                (insert (current_point st) (region st)))
                        (getNeighbors g (pt_x (current_point st)) (pt_y (current_point st)) True))
         else region st' = region st \<and> regionList st' = regionList st
            \<and> priorityQueue st' = pq_pop (priorityQueue st))
     \<and> cache_ok (similarityCache st')"
proof -
  let ?p = "current_point st"
  let ?cc = "current_color g st"
  obtain lt where lt: "calculateAdaptiveThreshold g (pt_x ?p) (pt_y ?p) 3 = Some lt"
    using calculateAdaptiveThreshold_Some [OF assms(5), of 3] by auto
  let ?t = "acceptance_threshold g seedThreshold lt"
  have t: "adaptiveThreshold_at g seedThreshold ?p = Some ?t"
    by (simp add: adaptiveThreshold_at_def acceptance_threshold_def lt)
  have base: "m_adaptiveMode g \<longrightarrow> calculateAdaptiveThreshold g seedX seedY 3 = Some seedThreshold"
    using assms(6) by (auto simp: baseAdaptiveThreshold_def split: if_splits)
  obtain s c1 where gc: "getCachedSimilarity (similarityCache st) seedColor ?cc = (s, c1)"
    by (cases "getCachedSimilarity (similarityCache st) seedColor ?cc")
  have s: "s = colorSimilarity seedColor ?cc" and ok1: "cache_ok c1"
    using getCachedSimilarity_pure [OF assms(1) gc] by simp_all
  show ?thesis
  proof (cases "s \<ge> ?t")
    case no: False
    have step: "grow_step g seedColor seedThreshold processed st
        = Some (st\<lparr>priorityQueue := pq_pop (priorityQueue st), similarityCache := c1\<rparr>)"
      by (rule grow_step_reject [OF assms(3,4) gc t no])
    show ?thesis
      apply (rule exI [of _ "st\<lparr>priorityQueue := pq_pop (priorityQueue st), similarityCache := c1\<rparr>"])
      apply (rule exI [of _ lt])
      using lt base step no s ok1 assms(3) by simp
  next
    case yes: True
    let ?reg = "insert ?p (region st)"
    let ?f = "fold (grow_neighbor g seedColor ?cc ?t processed ?reg)
                (getNeighbors g (pt_x ?p) (pt_y ?p) True) (pq_pop (priorityQueue st), c1)"
    obtain q' c2 where f: "?f = (q', c2)"
      by (cases ?f)
    have step: "grow_step g seedColor seedThreshold processed st
        = Some \<lparr>region = ?reg, regionList = regionList st @ [?p],
                priorityQueue = q', similarityCache = c2\<rparr>"
      by (rule grow_step_accept [OF assms(3,4) gc t yes f])
    have "fst ?f = pq_pop (priorityQueue st) @ map (queue_item g seedColor ?cc)
          (filter (admitted g seedColor ?cc ?t processed ?reg) (getNeighbors g (pt_x ?p) (pt_y ?p) True))
        \<and> cache_ok (snd ?f)"
      using ok1 by (rule fold_grow_neighbor_pure)
    then have q': "q' = pq_pop (priorityQueue st) @ map (queue_item g seedColor ?cc)
          (filter (admitted g seedColor ?cc ?t processed ?reg) (getNeighbors g (pt_x ?p) (pt_y ?p) True))"
      and ok2: "cache_ok c2"
      by (simp_all add: f)
    show ?thesis
      apply (rule exI [of _ "\<lparr>region = ?reg, regionList = regionList st @ [?p],
                priorityQueue = q', similarityCache = c2\<rparr>"])
      apply (rule exI [of _ lt])
      using lt base step yes s ok2 q' by simp
  qed
qed

text \<open>
  Claim C4. One iteration of the growth loop, for a popped candidate that is neither in
  the region nor processed (at a valid coordinate, as all queued points are, and with a
  cache that holds metric values only, as every reachable cache does): the candidate
  joins the region iff its similarity to the seed colour is at least the threshold
  \<open>acceptance_threshold\<close>; if it joins, the items queued are exactly those of its
  8-connected neighbours that are \<open>admitted\<close>, in the order of enumeration; if not,
  nothing is queued.
\<close>

theorem growth_step_acceptance:
  assumes "cache_ok (similarityCache st)"
    and "priorityQueue st \<noteq> []"
    and "current_point st \<notin> region st" "\<not> processed_at processed (current_point st)"
    and "isValidCoordinate g (pt_x (current_point st)) (pt_y (current_point st))"
    and "baseAdaptiveThreshold g seedX seedY = Some seedThreshold"
  shows "\<exists>st' localThreshold.
       calculateAdaptiveThreshold g (pt_x (current_point st)) (pt_y (current_point st)) 3 = Some localThreshold
     \<and> (m_adaptiveMode g \<longrightarrow> calculateAdaptiveThreshold g seedX seedY 3 = Some seedThreshold)
     \<and> grow_step g seedColor seedThreshold processed st = Some st'
     \<and> (current_point st \<in> region st' \<longleftrightarrow>
           colorSimilarity seedColor (current_color g st) \<ge> acceptance_threshold g seedThreshold localThreshold)
     \<and> (if colorSimilarity seedColor (current_color g st) \<ge> acceptance_threshold g seedThreshold localThreshold
         then region st' = insert (current_point st) (region st)
            \<and> regionList st' = regionList st @ [current_point st]
            \<and> priorityQueue st' = pq_pop (priorityQueue st)
                 @ map (queue_item g seedColor (current_color g st))
                     (filter (admitted g seedColor (current_color g st)
                                (acceptance_threshold g seedThreshold localThreshold) processed
                                (insert (current_point st) (region st)))
                        (getNeighbors g (pt_x (current_point st)) (pt_y (current_point st)) True))
         else region st' = region st \<and> regionList st' = regionList st
            \<and> priorityQueue st' = pq_pop (priorityQueue st))
     \<and> cache_ok (similarityCache st')"
  using assms by (rule grow_step_pure)

theorem growth_step_acceptance_witness:
  "cache_ok (similarityCache example_state) \<and> priorityQueue example_state \<noteq> []
   \<and> current_point example_state \<notin> region example_state
   \<and> \<not> processed_at [[False, False]] (current_point example_state)
   \<and> isValidCoordinate (uniform_grower 2) (pt_x (current_point example_state))
        (pt_y (current_point example_state))
   \<and> (\<exists>seedThreshold st'. baseAdaptiveThreshold (uniform_grower 2) 0 0 = Some seedThreshold
        \<and> grow_step (uniform_grower 2) (Color 255 0 0) seedThreshold [[False, False]] example_state = Some st'
        \<and> cache_ok (similarityCache st'))"
proof -
  have cp: "current_point example_state = Point 1 0"
    by (simp add: current_point_def example_state_def pq_top_def)
  have h1: "cache_ok (similarityCache example_state)"
    by (simp add: example_state_def cache_ok_empty)
  have h2: "priorityQueue example_state \<noteq> []"
    by (simp add: example_state_def)
  have h3: "current_point example_state \<notin> region example_state"
    unfolding cp by (simp add: example_state_def)
  have h4: "\<not> processed_at [[False, False]] (current_point example_state)"
    unfolding cp by (simp add: processed_at_def)
  have h5: "isValidCoordinate (uniform_grower 2) (pt_x (current_point example_state))
        (pt_y (current_point example_state))"
    unfolding cp by (simp add: isValidCoordinate_def grower_width_def grower_height_def
        uniform_grower_def uniform_image_def)
  have "isValidCoordinate (uniform_grower 2) 0 0"
    by (simp add: isValidCoordinate_def grower_width_def grower_height_def
        uniform_grower_def uniform_image_def)
  then obtain bt where bt: "baseAdaptiveThreshold (uniform_grower 2) 0 0 = Some bt"
    using baseAdaptiveThreshold_Some by blast
  show ?thesis
    using h1 h2 h3 h4 h5 bt
      growth_step_acceptance [OF h1 h2 h3 h4 h5 bt, of "Color 255 0 0"]
    by blast
qed

section \<open>The region cap\<close>

lemma grow_loop_exit: "\<not> loop_condition g st \<Longrightarrow> grow_loop g sc bt pr st = Some st"
  by (simp add: grow_loop.simps [of g sc bt pr st])

lemma grow_loop_continue:
  "loop_condition g st \<Longrightarrow> grow_step g sc bt pr st = Some st1
     \<Longrightarrow> grow_loop g sc bt pr st = grow_loop g sc bt pr st1"
  by (simp add: grow_loop.simps [of g sc bt pr st])

lemma findRegion_cap_zero:
  assumes "m_maxRegionSize g = 0" "baseAdaptiveThreshold g seedX seedY = Some bt"
  shows "map_option fst (findRegion g cache seedX seedY processed) = Some [Point seedX seedY]"
proof -
  let ?sc = "getPixel (m_image g) seedX seedY"
  obtain q cache1 where q: "fold (seed_neighbor g ?sc processed)
      (getNeighbors g seedX seedY True) ([], cache) = (q, cache1)"
    by (cases "fold (seed_neighbor g ?sc processed) (getNeighbors g seedX seedY True) ([], cache)")
  have "\<not> loop_condition g st" for st
    using assms(1) by (simp add: loop_condition_def size_t_of_int_def)
  then show ?thesis
    by (simp add: findRegion_unfold [OF q assms(2)] grow_loop_exit)
qed

lemma fold_add_deviation_nonneg: "0 \<le> v \<Longrightarrow> 0 \<le> fold (add_deviation a) cs v"
  by (induction cs arbitrary: v) (simp_all add: add_deviation_def Let_def)

lemma size_to_int_small: "n < 2 ^ 31 \<Longrightarrow> size_to_int n = int n"
  unfolding size_to_int_def
  by (simp add: signed_of_nat signed_take_bit_int_eq_self)

lemma calculateAdaptiveThreshold_range:
  assumes "calculateAdaptiveThreshold g x y radius = Some t"
    and "length (localColors g x y radius) < 2 ^ 31" "m_similarityThreshold g \<le> 1"
  shows "m_similarityThreshold g \<le> t \<and> t \<le> 1"
proof -
  let ?cs = "localColors g x y radius"
  let ?b = "m_similarityThreshold g"
  from assms(1) obtain avg where avg: "average_of_totals (channel_totals ?cs) (size_to_int (length ?cs)) = Some avg"
    by (auto simp: calculateAdaptiveThreshold_def Let_def split: option.splits)
  define variance where "variance = fold (add_deviation avg) ?cs 0 / (real_of_int (size_to_int (length ?cs)) * 3 * 255 * 255)"
  define vf where "vf = min 1 (variance * 2)"
  have t: "t = ?b + (1 - ?b) * (1 - vf) * 0.3"
    using assms(1) avg by (simp add: calculateAdaptiveThreshold_def Let_def variance_def vf_def)
  have "0 \<le> real_of_int (size_to_int (length ?cs))"
    using assms(2) by (simp add: size_to_int_small)
  then have "0 \<le> variance"
    unfolding variance_def using fold_add_deviation_nonneg [of 0 avg ?cs]
    by (intro divide_nonneg_nonneg mult_nonneg_nonneg) simp_all
  then have vf: "0 \<le> vf" "vf \<le> 1"
    by (simp_all add: vf_def)
  have "0 \<le> (1 - ?b) * (1 - vf)" "(1 - ?b) * (1 - vf) \<le> (1 - ?b) * 1"
    using assms(3) vf by (simp_all add: mult_left_le)
  then show ?thesis
    using assms(3) unfolding t by auto
qed

lemma adaptive_threshold_3_range:
  assumes "isValidCoordinate g x y" "m_similarityThreshold g \<le> 1"
    and "calculateAdaptiveThreshold g x y 3 = Some t"
  shows "m_similarityThreshold g \<le> t \<and> t \<le> 1"
proof -
  have "length (localColors g x y 3) \<le> nat ((2 * 3 + 1)\<^sup>2)"
    using assms(1) by (intro localColors_bounds) simp_all
  then have "length (localColors g x y 3) < 2 ^ 31"
    by simp
  with assms(3) show ?thesis
    using assms(2) by (intro calculateAdaptiveThreshold_range) 
qed

lemma seed_neighbor_pure:
  assumes "cache_ok cache"
  shows "fst (seed_neighbor g sc pr nb (q, cache))
           = (if processed_at pr nb then q else q @ [seed_item g sc nb])
       \<and> cache_ok (snd (seed_neighbor g sc pr nb (q, cache)))"
proof (cases "processed_at pr nb")
  case True
  then show ?thesis
    using assms by (simp add: seed_neighbor_def)
next
  case False
  let ?nc = "getPixel (m_image g) (pt_x nb) (pt_y nb)"
  obtain s c1 where 1: "getCachedSimilarity cache sc ?nc = (s, c1)"
    by (cases "getCachedSimilarity cache sc ?nc")
  have "s = colorSimilarity sc ?nc" "cache_ok c1"
    using getCachedSimilarity_pure [OF assms 1] by simp_all
  then show ?thesis
    using False 1 by (simp add: seed_neighbor_def seed_item_def pq_push_def Let_def)
qed

lemma fold_seed_neighbor_pure:
  assumes "cache_ok cache"
  shows "fst (fold (seed_neighbor g sc pr) nbs (q, cache))
           = q @ map (seed_item g sc) (filter (\<lambda>nb. \<not> processed_at pr nb) nbs)
       \<and> cache_ok (snd (fold (seed_neighbor g sc pr) nbs (q, cache)))"
  using assms
proof (induction nbs arbitrary: q cache)
  case Nil
  then show ?case by simp
next
  case (Cons nb nbs)
  obtain q1 c1 where 1: "seed_neighbor g sc pr nb (q, cache) = (q1, c1)"
    by (cases "seed_neighbor g sc pr nb (q, cache)")
  with seed_neighbor_pure [OF Cons.prems, of g sc pr nb q]
  have q1: "q1 = (if processed_at pr nb then q else q @ [seed_item g sc nb])" and ok: "cache_ok c1"
    by simp_all
  show ?case
    using Cons.IH [OF ok, of q1] by (simp add: 1 q1)
qed

lemma colorSimilarity_self: "colorSimilarity c c = 1"
  by (simp add: colorSimilarity_eq_1_iff)

lemma uniform_neighbors:
  "getNeighbors (uniform_grower cap) 0 0 True = [Point 1 0]"
  "getNeighbors (uniform_grower cap) 1 0 True = [Point 0 0]"
  by (simp_all add: getNeighbors_def offsets8_def isValidCoordinate_def grower_width_def
      grower_height_def uniform_grower_def uniform_image_def)

lemma uniform_pixels:
  "getPixel uniform_image 0 0 = Color 255 0 0" "getPixel uniform_image 1 0 = Color 255 0 0"
  by (simp_all add: getPixel_def getIndex_def uniform_image_def)

lemma uniform_growth:
  "map_option fst (findRegion (uniform_grower 2) Map.empty 0 0 [[False, False]])
     = Some [Point 0 0, Point 1 0]"
proof -
  let ?g = "uniform_grower 2"
  let ?red = "Color 255 0 0"
  let ?mask = "[[False, False]]"
  have img: "m_image ?g = uniform_image" and base: "m_similarityThreshold ?g \<le> 1"
    and ad: "m_adaptiveMode ?g"
    by (simp_all add: uniform_grower_def)
  have valid: "isValidCoordinate ?g 0 0" "isValidCoordinate ?g 1 0"
    by (simp_all add: isValidCoordinate_def grower_width_def grower_height_def
        uniform_grower_def uniform_image_def)
  have unproc: "\<not> processed_at ?mask (Point 1 0)"
    by (simp add: processed_at_def)
  obtain q c1 where q: "fold (seed_neighbor ?g (getPixel (m_image ?g) 0 0) ?mask)
      (getNeighbors ?g 0 0 True) ([], Map.empty) = (q, c1)"
    by (cases "fold (seed_neighbor ?g (getPixel (m_image ?g) 0 0) ?mask)
      (getNeighbors ?g 0 0 True) ([], Map.empty)")
  have "fst (fold (seed_neighbor ?g ?red ?mask) [Point 1 0] ([], Map.empty))
        = [] @ map (seed_item ?g ?red) (filter (\<lambda>nb. \<not> processed_at ?mask nb) [Point 1 0])
      \<and> cache_ok (snd (fold (seed_neighbor ?g ?red ?mask) [Point 1 0] ([], Map.empty)))"
    using cache_ok_empty by (rule fold_seed_neighbor_pure)
  with q have qv: "q = [PriorityItem 0 (Point 1 0) 1]" and ok1: "cache_ok c1"
    by (simp_all add: img uniform_pixels uniform_neighbors unproc seed_item_def colorSimilarity_self)
  obtain bt where bt: "baseAdaptiveThreshold ?g 0 0 = Some bt"
    using baseAdaptiveThreshold_Some [OF valid(1)] by blast
  then have "calculateAdaptiveThreshold ?g 0 0 3 = Some bt"
    using ad by (simp add: baseAdaptiveThreshold_def)
  then have bt1: "bt \<le> 1"
    using adaptive_threshold_3_range [OF valid(1) base] by simp
  let ?st0 = "\<lparr>region = {Point 0 0}, regionList = [Point 0 0],
               priorityQueue = q, similarityCache = c1\<rparr>"
  have cp: "current_point ?st0 = Point 1 0"
    by (simp add: current_point_def qv pq_top_def)
  have cc: "current_color ?g ?st0 = ?red"
    by (simp add: current_color_def cp img uniform_pixels)
  have h1: "cache_ok (similarityCache ?st0)"
    by (simp add: ok1)
  have h2: "priorityQueue ?st0 \<noteq> []"
    by (simp add: qv)
  have h3: "current_point ?st0 \<notin> region ?st0"
    unfolding cp by simp
  have h4: "\<not> processed_at ?mask (current_point ?st0)"
    unfolding cp by (rule unproc)
  have h5: "isValidCoordinate ?g (pt_x (current_point ?st0)) (pt_y (current_point ?st0))"
    unfolding cp using valid(2) by simp
  have "\<exists>st' lt. calculateAdaptiveThreshold ?g (pt_x (current_point ?st0)) (pt_y (current_point ?st0)) 3 = Some lt
     \<and> (m_adaptiveMode ?g \<longrightarrow> calculateAdaptiveThreshold ?g 0 0 3 = Some bt)
     \<and> grow_step ?g ?red bt ?mask ?st0 = Some st'
     \<and> (current_point ?st0 \<in> region st' \<longleftrightarrow>
           colorSimilarity ?red (current_color ?g ?st0) \<ge> acceptance_threshold ?g bt lt)
     \<and> (if colorSimilarity ?red (current_color ?g ?st0) \<ge> acceptance_threshold ?g bt lt
         then region st' = insert (current_point ?st0) (region ?st0)
            \<and> regionList st' = regionList ?st0 @ [current_point ?st0]
            \<and> priorityQueue st' = pq_pop (priorityQueue ?st0)
                 @ map (queue_item ?g ?red (current_color ?g ?st0))
                     (filter (admitted ?g ?red (current_color ?g ?st0)
                                (acceptance_threshold ?g bt lt) ?mask
                                (insert (current_point ?st0) (region ?st0)))
                        (getNeighbors ?g (pt_x (current_point ?st0)) (pt_y (current_point ?st0)) True))
         else region st' = region ?st0 \<and> regionList st' = regionList ?st0
            \<and> priorityQueue st' = pq_pop (priorityQueue ?st0))
     \<and> cache_ok (similarityCache st')"
    by (rule grow_step_pure [OF h1 h2 h3 h4 h5 bt])
  then obtain st' lt where lt: "calculateAdaptiveThreshold ?g 1 0 3 = Some lt"
    and step: "grow_step ?g ?red bt ?mask ?st0 = Some st'"
    and res: "if 1 \<ge> acceptance_threshold ?g bt lt
         then regionList st' = [Point 0 0, Point 1 0]
            \<and> priorityQueue st' = pq_pop q
                 @ map (queue_item ?g ?red ?red)
                     (filter (admitted ?g ?red ?red (acceptance_threshold ?g bt lt) ?mask
                                {Point 1 0, Point 0 0}) [Point 0 0])
         else regionList st' = [Point 0 0] \<and> priorityQueue st' = pq_pop q"
    unfolding cp cc by (auto simp: colorSimilarity_self uniform_neighbors split: if_splits)
  have "acceptance_threshold ?g bt lt \<le> 1"
    using bt1 by (simp add: acceptance_threshold_def ad)
  with res have st': "regionList st' = [Point 0 0, Point 1 0]" "priorityQueue st' = []"
    by (simp_all add: admitted_def qv pq_pop_def pq_top_def)
  have c0: "loop_condition ?g ?st0"
    by (simp add: loop_condition_def qv size_t_of_int_def uniform_grower_def)
  have c1: "\<not> loop_condition ?g st'"
    by (simp add: loop_condition_def st')
  have "grow_loop ?g ?red bt ?mask ?st0 = Some st'"
    using grow_loop_continue [OF c0 step] grow_loop_exit [OF c1] by simp
  then show ?thesis
    using findRegion_unfold [OF q bt] by (simp add: img uniform_pixels st')
qed

text \<open>
  The loop reads the member: with a stored 0 its test
  \<^verbatim>\<open>region.size() < static_cast<size_t>(maxRegionSize_)\<close> is \<open>1 < 0\<close> before the first
  iteration, and the region is the seed alone, while a stored 2 lets the second pixel of a
  uniform image of two pixels join. So ``0 = unbounded'' is the work of the code that
  stores the member, the constructor, not of the loop.
\<close>

lemma stored_cap_zero_stops_growth:
  "map_option fst (findRegion (uniform_grower 0) Map.empty 0 0 [[False, False]]) = Some [Point 0 0]
   \<and> map_option fst (findRegion (uniform_grower 2) Map.empty 0 0 [[False, False]])
       = Some [Point 0 0, Point 1 0]"
proof -
  have "isValidCoordinate (uniform_grower 0) 0 0"
    by (simp add: isValidCoordinate_def grower_width_def grower_height_def
        uniform_grower_def uniform_image_def)
  then obtain bt where "baseAdaptiveThreshold (uniform_grower 0) 0 0 = Some bt"
    using baseAdaptiveThreshold_Some by blast
  moreover have "m_maxRegionSize (uniform_grower 0) = 0"
    by (simp add: uniform_grower_def)
  ultimately have "map_option fst (findRegion (uniform_grower 0) Map.empty 0 0 [[False, False]])
      = Some [Point 0 0]"
    by (intro findRegion_cap_zero)
  then show ?thesis
    using uniform_growth by simp
qed

section \<open>The formula of the adaptive threshold\<close>

lemma filter_upto_clip:
  "filter (\<lambda>i. lo \<le> i \<and> i \<le> hi) [a..b] = [max lo a..min hi b]"
proof (rule sorted_distinct_set_unique)
  show "sorted (filter (\<lambda>i. lo \<le> i \<and> i \<le> hi) [a..b])"
    using sorted_filter [of "\<lambda>i. i" "[a..b]"] by simp
  show "set (filter (\<lambda>i. lo \<le> i \<and> i \<le> hi) [a..b]) = set [max lo a..min hi b]"
    by auto
qed simp_all

lemma filter_rows:
  "filter (\<lambda>p. vx (pt_x p) \<and> vy (pt_y p)) (concat (map (\<lambda>ly. map (\<lambda>lx. Point lx ly) xs) ys))
     = concat (map (\<lambda>ly. map (\<lambda>lx. Point lx ly) (filter vx xs)) (filter vy ys))"
  by (induction ys) (simp_all add: filter_map comp_def)

lemma pixels_at_rows:
  "pixels_at img (concat (map (\<lambda>ly. map (\<lambda>lx. Point lx ly) xs) ys))
     = concat (map (\<lambda>ly. map (\<lambda>lx. getPixel img lx ly) xs) ys)"
  by (simp add: pixels_at_def map_concat comp_def)

lemma window_spec_rows:
  "window_spec g x y radius =
     concat (map (\<lambda>ly. map (\<lambda>lx. Point lx ly)
         [max 0 (x - radius)..min (grower_width g - 1) (x + radius)])
       [max 0 (y - radius)..min (grower_height g - 1) (y + radius)])"
proof -
  have v: "isValidCoordinate g a b \<longleftrightarrow> (0 \<le> a \<and> a \<le> grower_width g - 1) \<and> (0 \<le> b \<and> b \<le> grower_height g - 1)"
    for a b
    by (auto simp: isValidCoordinate_def)
  have "window_spec g x y radius =
      filter (\<lambda>p. (0 \<le> pt_x p \<and> pt_x p \<le> grower_width g - 1)
                 \<and> (0 \<le> pt_y p \<and> pt_y p \<le> grower_height g - 1))
        (concat (map (\<lambda>ly. map (\<lambda>lx. Point lx ly) [x - radius..x + radius]) [y - radius..y + radius]))"
    by (simp add: window_spec_def v)
  also have "\<dots> = concat (map (\<lambda>ly. map (\<lambda>lx. Point lx ly)
         (filter (\<lambda>i. 0 \<le> i \<and> i \<le> grower_width g - 1) [x - radius..x + radius]))
       (filter (\<lambda>i. 0 \<le> i \<and> i \<le> grower_height g - 1) [y - radius..y + radius]))"
    by (rule filter_rows)
  finally show ?thesis
    by (simp only: filter_upto_clip)
qed

lemma localColors_window: "localColors g x y radius = pixels_at (m_image g) (window_spec g x y radius)"
  by (simp add: localColors_def Let_def window_spec_rows pixels_at_rows)

lemma word_of_nat_mean:
  assumes "s < 2 ^ 32" "n < 2 ^ 32" "0 < n" "s \<le> 255 * n"
  shows "(ucast ((word_of_nat s :: u32) div word_of_nat n) :: u8) = word_of_nat (s div n)"
proof -
  have "s div n \<le> 255"
    using assms(3,4) by (metis div_le_mono nonzero_mult_div_cancel_right less_numeral_extra(3))
  then have "unat (word_of_nat (s div n) :: u8) = s div n"
    by (simp add: unat_of_nat)
  with unat_total_div [OF assms] show ?thesis
    by (simp add: word_unat_eq_iff)
qed

lemma average_of_totals_mean:
  assumes "colors \<noteq> []" "length colors \<le> 16843009"
  shows "average_of_totals (channel_totals colors) (size_to_int (length colors)) = Some (mean_color colors)"
proof -
  let ?n = "length colors"
  have n: "0 < ?n" "?n < 2 ^ 32" using assms by simp_all
  have s: "chan_sum f colors < 2 ^ 32" "chan_sum f colors \<le> 255 * ?n" for f
    using chan_sum_le [of f colors] assms(2) by simp_all
  have nz: "(word_of_nat ?n :: u32) \<noteq> 0"
    using n of_nat_inverse [of ?n "0 :: u32"] by auto
  show ?thesis
    using nz word_of_nat_mean [OF s(1) n(2) n(1) s(2)]
    by (simp add: average_of_totals_def channel_totals_eq word_of_int_size_to_int
        mean_color_def mean_channel_def Let_def)
qed

lemma fold_add_deviation_sum:
  "fold (add_deviation m) colors v = v + (\<Sum>c\<leftarrow>colors. squared_deviation m c)"
  by (induction colors arbitrary: v)
    (simp_all add: add_deviation_def squared_deviation_def Let_def power2_eq_square)

lemma variance_of_colors:
  assumes "length colors < 2 ^ 31"
  shows "fold (add_deviation (mean_color colors)) colors 0
           / (real_of_int (size_to_int (length colors)) * 3 * 255 * 255)
       = color_variance colors"
proof -
  have "real_of_int (size_to_int (length colors)) = real (length colors)"
    using assms by (simp add: size_to_int_small)
  then show ?thesis
    by (simp add: fold_add_deviation_sum color_variance_def power2_eq_square ac_simps)
qed

lemma set_window_spec:
  "set (window_spec g x y radius) =
     {p. isValidCoordinate g (pt_x p) (pt_y p) \<and> \<bar>pt_x p - x\<bar> \<le> radius \<and> \<bar>pt_y p - y\<bar> \<le> radius}"
proof -
  have "set (concat (map (\<lambda>ly. map (\<lambda>lx. Point lx ly) [x - radius..x + radius]) [y - radius..y + radius]))
      = {p. \<bar>pt_x p - x\<bar> \<le> radius \<and> \<bar>pt_y p - y\<bar> \<le> radius}" (is "?L = ?R")
  proof (intro set_eqI iffI)
    fix p assume "p \<in> ?L"
    then show "p \<in> ?R" by auto
  next
    fix p assume "p \<in> ?R"
    then have xi: "pt_x p \<in> {x - radius..x + radius}" and yi: "pt_y p \<in> {y - radius..y + radius}"
      by auto
    from xi have "Point (pt_x p) (pt_y p) \<in> (\<lambda>lx. Point lx (pt_y p)) ` {x - radius..x + radius}"
      by (rule imageI)
    with yi have "\<exists>ly\<in>{y - radius..y + radius}.
        Point (pt_x p) (pt_y p) \<in> (\<lambda>lx. Point lx ly) ` {x - radius..x + radius}"
      by (rule rev_bexI)
    then have "Point (pt_x p) (pt_y p) \<in> ?L"
      by (simp del: Point.collapse)
    then show "p \<in> ?L" by simp
  qed
  then show ?thesis
    by (auto simp: window_spec_def)
qed

lemma adaptive_threshold_window:
  assumes "isValidCoordinate g x y" "0 \<le> radius" "length (window_spec g x y radius) \<le> 16843009"
  shows "calculateAdaptiveThreshold g x y radius
       = Some (adaptive_threshold_spec (m_similarityThreshold g)
                 (pixels_at (m_image g) (window_spec g x y radius)))"
proof -
  let ?cs = "pixels_at (m_image g) (window_spec g x y radius)"
  have cs: "localColors g x y radius = ?cs"
    by (rule localColors_window)
  have "0 < length (localColors g x y radius)"
    using assms(1,2) by (rule localColors_bounds)
  then have ne: "?cs \<noteq> []"
    by (simp add: cs)
  have len: "length ?cs \<le> 16843009"
    using assms(3) by (simp add: pixels_at_def)
  have avg: "average_of_totals (channel_totals ?cs) (size_to_int (length ?cs)) = Some (mean_color ?cs)"
    using ne len by (rule average_of_totals_mean)
  have "length ?cs < 2 ^ 31"
    using len by simp
  then have var: "fold (add_deviation (mean_color ?cs)) ?cs 0
           / (real_of_int (size_to_int (length ?cs)) * 3 * 255 * 255) = color_variance ?cs"
    by (rule variance_of_colors)
  show ?thesis
    unfolding calculateAdaptiveThreshold_def cs Let_def avg option.case var
      adaptive_threshold_spec_def ..
qed

lemma window_spec_small:
  assumes "isValidCoordinate g x y" "0 \<le> radius" "radius \<le> 2051"
  shows "length (window_spec g x y radius) \<le> 16843009"
proof -
  have "length (localColors g x y radius) \<le> nat ((2 * radius + 1)\<^sup>2)"
    using assms(1,2) by (rule localColors_bounds)
  moreover have "(2 * radius + 1)\<^sup>2 \<le> 4103\<^sup>2"
    using assms(2,3) by (intro power_mono) simp_all
  ultimately have "length (localColors g x y radius) \<le> 16843009"
    by simp
  then show ?thesis
    by (simp add: localColors_window pixels_at_def)
qed

lemma white_row_pixel: "0 \<le> lx \<Longrightarrow> lx < n \<Longrightarrow> getPixel (white_row n) lx 0 = Color 255 255 255"
  by (simp add: getPixel_def white_row_def getIndex_def)

lemma white_row_colors:
  assumes "0 < n"
  shows "localColors (white_row_grower n) 0 0 (n - 1) = replicate (nat n) (Color 255 255 255)"
proof -
  have "map (\<lambda>lx. getPixel (white_row n) lx 0) [0..n - 1]
      = map (\<lambda>lx. Color 255 255 255) [0..n - 1]"
    by (rule map_cong) (simp_all add: white_row_pixel)
  also have "\<dots> = replicate (nat n) (Color 255 255 255)"
    using assms by (simp add: map_replicate_const)
  finally show ?thesis
    using assms
    by (simp add: localColors_def Let_def white_row_grower_def white_row_def
        grower_width_def grower_height_def)
qed

lemma squared_deviation_black_white:
  "squared_deviation (Color 0 0 0) (Color 255 255 255) = 195075"
  "squared_deviation (Color 255 255 255) (Color 255 255 255) = 0"
  by (simp_all add: squared_deviation_def channel_diff_def)

lemma sum_deviation_replicate:
  "(\<Sum>c\<leftarrow>replicate n a. squared_deviation m c) = real n * squared_deviation m a"
  by (simp add: sum_list_replicate)

lemma white_row_window:
  "localColors (white_row_grower 16843010) 0 0 16843009 = replicate 16843010 (Color 255 255 255)"
  using white_row_colors [of 16843010] by simp

lemma threshold_wrap_code:
  "calculateAdaptiveThreshold (white_row_grower 16843010) 0 0 16843009 = Some 0.9"
proof -
  have n: "real_of_int (size_to_int 16843010) = 16843010"
    by (simp add: size_to_int_small)
  have v: "fold (add_deviation (Color 0 0 0)) (replicate 16843010 (Color 255 255 255)) 0
      / (real_of_int (size_to_int 16843010) * 3 * 255 * 255) = 1"
    unfolding fold_add_deviation_sum sum_deviation_replicate squared_deviation_black_white n
    by simp
  have b: "m_similarityThreshold (white_row_grower 16843010) = 0.9"
    by (simp add: white_row_grower_def)
  show ?thesis
    unfolding calculateAdaptiveThreshold_def white_row_window Let_def length_replicate
      channel_totals_wrap average_of_totals_wrap option.case v b
    by simp
qed

lemma threshold_wrap_spec:
  "adaptive_threshold_spec 0.9
     (pixels_at (m_image (white_row_grower 16843010)) (window_spec (white_row_grower 16843010) 0 0 16843009))
   = 0.93"
proof -
  let ?cs = "replicate 16843010 (Color 255 255 255)"
  have cs: "pixels_at (m_image (white_row_grower 16843010)) (window_spec (white_row_grower 16843010) 0 0 16843009) = ?cs"
    unfolding localColors_window [symmetric] by (rule white_row_window)
  have m: "mean_channel f ?cs = unat (f (Color 255 255 255))" for f
    unfolding mean_channel_def chan_sum_replicate length_replicate by simp
  have mc: "mean_color ?cs = Color 255 255 255"
    unfolding mean_color_def m by simp
  have "color_variance ?cs = 0"
    unfolding color_variance_def mc sum_deviation_replicate squared_deviation_black_white by simp
  then show ?thesis
    unfolding cs adaptive_threshold_spec_def by simp
qed

text \<open>
  Claim C5. \<^verbatim>\<open>calculateAdaptiveThreshold\<close> is a private member; \<^verbatim>\<open>findRegion\<close>
  calls it twice (for the seed and for the popped pixel), both times with the default
  radius 3. For every coordinate of the image and every radius from 0 to 2051, so for the
  radius of every call, such that \<^verbatim>\<open>x + radius\<close> and \<^verbatim>\<open>y + radius\<close> are values of
  \<^verbatim>\<open>int\<close>, the function returns the formula of the specification,
  \<open>base + (1 - base) * (1 - varianceFactor) * 0.3\<close> with
  \<open>varianceFactor = min 1 (variance * 2)\<close>, for the mean colour and the variance
  (normalised by \<open>3 * 255\<^sup>2\<close>) of the colours of the \<open>(2 * radius + 1)\<^sup>2\<close> window around
  \<open>(x, y)\<close> clipped to the image. The same holds for a larger radius as long as the
  clipped window has at most 16,843,009 pixels, the number of pixels whose channels the
  \<^verbatim>\<open>uint32_t\<close> totals are sure to hold.
\<close>

theorem adaptive_threshold_formula:
  assumes "isValidCoordinate g x y" "0 \<le> radius"
    and "x + radius < 2 ^ 31" "y + radius < 2 ^ 31"
    and "radius \<le> 2051 \<or> length (window_spec g x y radius) \<le> 16843009"
  shows "calculateAdaptiveThreshold g x y radius
       = Some (adaptive_threshold_spec (m_similarityThreshold g)
                 (pixels_at (m_image g) (window_spec g x y radius)))
     \<and> set (window_spec g x y radius)
       = {p. isValidCoordinate g (pt_x p) (pt_y p) \<and> \<bar>pt_x p - x\<bar> \<le> radius \<and> \<bar>pt_y p - y\<bar> \<le> radius}"
proof -
  have "length (window_spec g x y radius) \<le> 16843009"
    using assms(5) window_spec_small [OF assms(1,2)] by blast
  then show ?thesis
    using adaptive_threshold_window [OF assms(1,2)] set_window_spec [of g x y radius] by simp
qed

theorem adaptive_threshold_formula_witness:
  "isValidCoordinate (uniform_grower 2) 1 0 \<and> (0::int) \<le> 3
   \<and> (1::int) + 3 < 2 ^ 31 \<and> (0::int) + 3 < 2 ^ 31
   \<and> ((3::int) \<le> 2051 \<or> length (window_spec (uniform_grower 2) 1 0 3) \<le> 16843009)
   \<and> window_spec (uniform_grower 2) 1 0 3 = [Point 0 0, Point 1 0]
   \<and> calculateAdaptiveThreshold (uniform_grower 2) 1 0 3 = Some 0.93"
proof -
  have v: "isValidCoordinate (uniform_grower 2) 1 0"
    by (simp add: isValidCoordinate_def grower_width_def grower_height_def
        uniform_grower_def uniform_image_def)
  have r: "(0::int) \<le> 3"
    by simp
  have ox: "(1::int) + 3 < 2 ^ 31"
    by simp
  have oy: "(0::int) + 3 < 2 ^ 31"
    by simp
  have l: "(3::int) \<le> 2051 \<or> length (window_spec (uniform_grower 2) 1 0 3) \<le> 16843009"
    by simp
  have u: "[0..1] = [0, 1::int]"
    by (simp add: upto_rec1)
  have w: "window_spec (uniform_grower 2) 1 0 3 = [Point 0 0, Point 1 0]"
    by (simp add: window_spec_rows grower_width_def grower_height_def
        uniform_grower_def uniform_image_def u)
  have cs: "pixels_at (m_image (uniform_grower 2)) [Point 0 0, Point 1 0] = [Color 255 0 0, Color 255 0 0]"
    by (simp add: pixels_at_def uniform_grower_def uniform_pixels)
  have mc: "mean_color [Color 255 0 0, Color 255 0 0] = Color 255 0 0"
    by (simp add: mean_color_def mean_channel_def chan_sum_def numeral_2_eq_2 [symmetric])
  have "color_variance [Color 255 0 0, Color 255 0 0] = 0"
    unfolding color_variance_def mc by (simp add: squared_deviation_def channel_diff_def)
  then have t: "adaptive_threshold_spec (m_similarityThreshold (uniform_grower 2))
      [Color 255 0 0, Color 255 0 0] = 0.93"
    by (simp add: adaptive_threshold_spec_def uniform_grower_def)
  show ?thesis
    using v adaptive_threshold_formula [OF v r ox oy l]
    by (simp add: w cs t)
qed

text \<open>
  The bound on the window is the capacity of the totals, as for
  \<^verbatim>\<open>calculateAverageColor\<close>. A window beyond it is not one the program forms (at radius 3
  a window has at most 49 pixels), but the function, taken alone with a radius of
  16,843,009 at \<open>(0, 0)\<close> of a white image of 16,843,010 by 1 pixels, sees its totals wrap
  to 254: the average colour is black, the variance 1, and the result the base 0.9 where
  the formula of the window gives 0.93.
\<close>

lemma threshold_window_bound_tight:
  "isValidCoordinate (white_row_grower 16843010) 0 0
   \<and> m_similarityThreshold (white_row_grower 16843010) = 0.9
   \<and> calculateAdaptiveThreshold (white_row_grower 16843010) 0 0 16843009 = Some 0.9
   \<and> adaptive_threshold_spec 0.9
        (pixels_at (m_image (white_row_grower 16843010))
           (window_spec (white_row_grower 16843010) 0 0 16843009)) = 0.93"
proof -
  have "isValidCoordinate (white_row_grower 16843010) 0 0"
    by (simp add: isValidCoordinate_def grower_width_def grower_height_def
        white_row_grower_def white_row_def)
  moreover have "m_similarityThreshold (white_row_grower 16843010) = 0.9"
    by (simp add: white_row_grower_def)
  ultimately show ?thesis
    using threshold_wrap_code threshold_wrap_spec by simp
qed

section \<open>The scenario of the two halves under a cap that does not bind\<close>

text \<open>
  With a cap that the region cannot reach (8 or more, or a negative one, which the cast to
  \<^verbatim>\<open>size_t\<close> makes huge), the region grown from any seed on the 4 by 4 image of a red and
  a blue half is exactly the seed's half, whatever the order in which equal priorities are
  popped, and its average colour is the colour of the half.
\<close>

lemma grow_loop_rule:
  assumes "I st"
    and "\<And>s. I s \<Longrightarrow> loop_condition g s \<Longrightarrow> \<exists>s'. grow_step g sc bt pr s = Some s' \<and> I s'"
  shows "\<exists>st'. grow_loop g sc bt pr st = Some st' \<and> I st' \<and> \<not> loop_condition g st'"
  using assms
proof (induction g sc bt pr st rule: grow_loop.induct)
  case (1 g sc bt pr st)
  show ?case
  proof (cases "loop_condition g st")
    case True
    then obtain st1 where st1: "grow_step g sc bt pr st = Some st1" "I st1"
      using "1.prems" by blast
    from "1.IH" [OF True st1(1) st1(2) "1.prems"(2)] obtain st' where
      "grow_loop g sc bt pr st1 = Some st'" "I st'" "\<not> loop_condition g st'"
      by blast
    with True st1(1) show ?thesis
      by (simp add: grow_loop.simps [of g sc bt pr st])
  next
    case False
    with "1.prems"(1) show ?thesis
      by (simp add: grow_loop.simps [of g sc bt pr st])
  qed
qed

lemma point_pq_pop:
  assumes "item \<in> set q" "point item \<noteq> point (pq_top q)"
  shows "point item \<in> point ` set (pq_pop q)"
proof -
  from assms(2) have "item \<noteq> pq_top q" by auto
  with assms(1) have "item \<in> set (pq_pop q)"
    by (simp add: pq_pop_def)
  then show ?thesis by (rule imageI)
qed

lemma acceptance_threshold_range:
  assumes "m_similarityThreshold g \<le> 1"
    and "baseAdaptiveThreshold g seedX seedY = Some bt" "isValidCoordinate g seedX seedY"
    and "calculateAdaptiveThreshold g x y 3 = Some lt" "isValidCoordinate g x y"
  shows "m_similarityThreshold g \<le> acceptance_threshold g bt lt \<and> acceptance_threshold g bt lt \<le> 1"
proof (cases "m_adaptiveMode g")
  case True
  with assms(2) have "calculateAdaptiveThreshold g seedX seedY 3 = Some bt"
    by (simp add: baseAdaptiveThreshold_def)
  then have "m_similarityThreshold g \<le> bt \<and> bt \<le> 1"
    using assms(1,3) by (intro adaptive_threshold_3_range)
  moreover have "m_similarityThreshold g \<le> lt \<and> lt \<le> 1"
    using assms(1,4,5) by (intro adaptive_threshold_3_range)
  ultimately show ?thesis
    using True by (auto simp: acceptance_threshold_def min_def)
next
  case False
  then show ?thesis
    using assms(1) by (simp add: acceptance_threshold_def)
qed

lemma current_color_pixel: "current_color g st = pixel_of g (current_point st)"
  by (simp add: current_color_def pixel_of_def)

lemma component_inv_pop:
  assumes c: "component_inv g processed sc st"
    and cur: "current_point st \<in> region st \<or> processed_at processed (current_point st)
              \<or> pixel_of g (current_point st) \<noteq> sc"
    and ok: "cache_ok c1"
  shows "component_inv g processed sc (st\<lparr>priorityQueue := pq_pop (priorityQueue st), similarityCache := c1\<rparr>)"
  unfolding component_inv_def
proof (intro conjI ballI impI)
  let ?st' = "st\<lparr>priorityQueue := pq_pop (priorityQueue st), similarityCache := c1\<rparr>"
  show "cache_ok (similarityCache ?st')"
    using ok by simp
  fix p assume p: "p \<in> region ?st'"
  then show "pixel_of g p = sc"
    using c by (simp add: component_inv_def)
  fix nb assume nb: "nb \<in> set (getNeighbors g (pt_x p) (pt_y p) True)"
    and col: "pixel_of g nb = sc \<and> \<not> processed_at processed nb"
  from c p nb col have "nb \<in> region st \<or> nb \<in> point ` set (priorityQueue st)"
    unfolding component_inv_def by simp
  then show "nb \<in> region ?st' \<or> nb \<in> point ` set (priorityQueue ?st')"
  proof
    assume "nb \<in> region st"
    then show ?thesis by simp
  next
    assume "nb \<in> point ` set (priorityQueue st)"
    then obtain item where item: "item \<in> set (priorityQueue st)" "nb = point item"
      by auto
    show ?thesis
    proof (cases "nb = current_point st")
      case True
      with cur col show ?thesis by auto
    next
      case False
      with item have "point item \<in> point ` set (pq_pop (priorityQueue st))"
        by (intro point_pq_pop) (simp_all add: current_point_def)
      with item(2) show ?thesis by simp
    qed
  qed
qed

lemma component_inv_accept:
  assumes c: "component_inv g processed sc st"
    and col: "pixel_of g (current_point st) = sc"
    and thr: "thr \<le> 1"
    and ok: "cache_ok c2"
    and st': "region st' = insert (current_point st) (region st)"
      "priorityQueue st' = pq_pop (priorityQueue st)
         @ map (queue_item g sc sc)
             (filter (admitted g sc sc thr processed (insert (current_point st) (region st)))
                (getNeighbors g (pt_x (current_point st)) (pt_y (current_point st)) True))"
      "similarityCache st' = c2"
  shows "component_inv g processed sc st'"
  unfolding component_inv_def
proof (intro conjI ballI impI)
  let ?cur = "current_point st"
  show "cache_ok (similarityCache st')"
    using ok st'(3) by simp
  fix p assume p: "p \<in> region st'"
  then show "pixel_of g p = sc"
    using c col st'(1) by (auto simp: component_inv_def)
  fix nb assume nb: "nb \<in> set (getNeighbors g (pt_x p) (pt_y p) True)"
    and nbc: "pixel_of g nb = sc \<and> \<not> processed_at processed nb"
  show "nb \<in> region st' \<or> nb \<in> point ` set (priorityQueue st')"
  proof (cases "nb \<in> region st'")
    case True
    then show ?thesis by simp
  next
    case False
    then have nreg: "nb \<noteq> ?cur" "nb \<notin> region st"
      using st'(1) by simp_all
    show ?thesis
    proof (cases "p = ?cur")
      case True
      have "best_similarity g sc sc nb = 1"
        using nbc by (simp add: best_similarity_def pixel_of_def colorSimilarity_self)
      then have "admitted g sc sc thr processed (insert ?cur (region st)) nb"
        using nbc nreg thr by (simp add: admitted_def)
      with nb True have "queue_item g sc sc nb \<in> set (priorityQueue st')"
        by (simp add: st'(2))
      then have "point (queue_item g sc sc nb) \<in> point ` set (priorityQueue st')"
        by (rule imageI)
      then show ?thesis
        by (simp add: queue_item_def)
    next
      case False
      with p st'(1) have "p \<in> region st" by simp
      with c nb nbc nreg(2) have "nb \<in> point ` set (priorityQueue st)"
        unfolding component_inv_def by blast
      then obtain item where item: "item \<in> set (priorityQueue st)" "nb = point item"
        by auto
      with nreg(1) have "point item \<in> point ` set (pq_pop (priorityQueue st))"
        by (intro point_pq_pop) (simp_all add: current_point_def)
      with item(2) show ?thesis
        by (auto simp: st'(2))
    qed
  qed
qed

lemma component_step:
  assumes sh: "sharp g sc"
    and seed: "isValidCoordinate g seedX seedY" "baseAdaptiveThreshold g seedX seedY = Some bt"
    and rinv: "region_inv g processed seed st" and cinv: "component_inv g processed sc st"
    and cond: "loop_condition g st"
  shows "\<exists>st'. grow_step g sc bt processed st = Some st'
           \<and> region_inv g processed seed st' \<and> component_inv g processed sc st'"
proof -
  let ?q = "priorityQueue st"
  let ?cur = "current_point st"
  obtain st' where step: "grow_step g sc bt processed st = Some st'"
    and rinv': "region_inv g processed seed st'"
    using grow_step_inv [OF rinv cond] by blast
  from cond have ne: "?q \<noteq> []"
    by (simp add: loop_condition_def)
  from cinv have ok: "cache_ok (similarityCache st)"
    by (simp add: component_inv_def)
  have "pq_top ?q \<in> set ?q"
    using ne by (rule pq_top_mem)
  with rinv have vp: "?cur \<in> valid_points g"
    by (simp add: region_inv_def current_point_def)
  then have valid: "isValidCoordinate g (pt_x ?cur) (pt_y ?cur)"
    by (simp add: valid_points_def)
  have "component_inv g processed sc st'"
  proof (cases "?cur \<in> region st \<or> processed_at processed ?cur")
    case True
    then have "grow_step g sc bt processed st = Some (st\<lparr>priorityQueue := pq_pop ?q\<rparr>)"
      by (rule grow_step_skip)
    with step have "st' = st\<lparr>priorityQueue := pq_pop ?q\<rparr>"
      by simp
    moreover have "st\<lparr>priorityQueue := pq_pop ?q, similarityCache := similarityCache st\<rparr>
        = st\<lparr>priorityQueue := pq_pop ?q\<rparr>"
      by simp
    moreover have "component_inv g processed sc
        (st\<lparr>priorityQueue := pq_pop ?q, similarityCache := similarityCache st\<rparr>)"
      using cinv _ ok by (rule component_inv_pop) (use True in blast)
    ultimately show ?thesis by simp
  next
    case False
    then have np: "?cur \<notin> region st" "\<not> processed_at processed ?cur"
      by simp_all
    from grow_step_pure [OF ok ne np valid seed(2), of sc]
    obtain st'' lt where lt: "calculateAdaptiveThreshold g (pt_x ?cur) (pt_y ?cur) 3 = Some lt"
      and step'': "grow_step g sc bt processed st = Some st''"
      and res: "if colorSimilarity sc (current_color g st) \<ge> acceptance_threshold g bt lt
         then region st'' = insert ?cur (region st)
            \<and> regionList st'' = regionList st @ [?cur]
            \<and> priorityQueue st'' = pq_pop ?q
                 @ map (queue_item g sc (current_color g st))
                     (filter (admitted g sc (current_color g st)
                                (acceptance_threshold g bt lt) processed
                                (insert ?cur (region st)))
                        (getNeighbors g (pt_x ?cur) (pt_y ?cur) True))
         else region st'' = region st \<and> regionList st'' = regionList st
            \<and> priorityQueue st'' = pq_pop ?q"
      and ok'': "cache_ok (similarityCache st'')"
      by blast
    from step step'' have eq: "st'' = st'" by simp
    let ?thr = "acceptance_threshold g bt lt"
    from sh have base: "m_similarityThreshold g \<le> 1"
      by (simp add: sharp_def)
    have thr: "m_similarityThreshold g \<le> ?thr" "?thr \<le> 1"
      using acceptance_threshold_range [OF base seed(2,1) lt valid] by simp_all
    show ?thesis
    proof (cases "pixel_of g ?cur = sc")
      case True
      then have cc: "current_color g st = sc"
        by (simp add: current_color_pixel)
      have "colorSimilarity sc (current_color g st) \<ge> ?thr"
        using thr(2) by (simp add: cc colorSimilarity_self)
      with res have r1: "region st'' = insert ?cur (region st)"
        and r2: "priorityQueue st'' = pq_pop ?q
           @ map (queue_item g sc sc)
               (filter (admitted g sc sc ?thr processed (insert ?cur (region st)))
                  (getNeighbors g (pt_x ?cur) (pt_y ?cur) True))"
        by (simp_all add: cc)
      have "component_inv g processed sc st''"
        by (rule component_inv_accept [OF cinv True thr(2) ok'' r1 r2 refl])
      with eq show ?thesis by simp
    next
      case False
      with sh vp have "colorSimilarity sc (pixel_of g ?cur) < m_similarityThreshold g"
        by (auto simp: sharp_def)
      with thr(1) have "\<not> colorSimilarity sc (current_color g st) \<ge> ?thr"
        by (simp add: current_color_pixel)
      with res have r: "region st'' = region st" "regionList st'' = regionList st"
        "priorityQueue st'' = pq_pop ?q"
        by simp_all
      have "component_inv g processed sc
          (st\<lparr>priorityQueue := pq_pop ?q, similarityCache := similarityCache st''\<rparr>)"
        using cinv _ ok'' by (rule component_inv_pop) (use False in blast)
      moreover have "component_inv g processed sc st''
          = component_inv g processed sc
              (st\<lparr>priorityQueue := pq_pop ?q, similarityCache := similarityCache st''\<rparr>)"
        by (simp add: component_inv_def r)
      ultimately show ?thesis
        using eq by simp
    qed
  qed
  with step rinv' show ?thesis by blast
qed

lemma findRegion_component:
  assumes valid: "isValidCoordinate g seedX seedY"
    and unproc: "\<not> processed_at processed (Point seedX seedY)"
    and sh: "sharp g (getPixel (m_image g) seedX seedY)"
    and ok: "cache_ok cache"
  shows "\<exists>st. findRegion g cache seedX seedY processed = Some (regionList st, similarityCache st)
           \<and> region_inv g processed (Point seedX seedY) st
           \<and> component_inv g processed (getPixel (m_image g) seedX seedY) st
           \<and> \<not> loop_condition g st"
proof -
  let ?sc = "getPixel (m_image g) seedX seedY"
  let ?seed = "Point seedX seedY"
  let ?nbs = "getNeighbors g seedX seedY True"
  obtain q cache1 where q: "fold (seed_neighbor g ?sc processed) ?nbs ([], cache) = (q, cache1)"
    by (cases "fold (seed_neighbor g ?sc processed) ?nbs ([], cache)")
  obtain bt where bt: "baseAdaptiveThreshold g seedX seedY = Some bt"
    using baseAdaptiveThreshold_Some [OF valid] by blast
  let ?st0 = "\<lparr>region = {?seed}, regionList = [?seed], priorityQueue = q, similarityCache = cache1\<rparr>"
  have "fst (fold (seed_neighbor g ?sc processed) ?nbs ([], cache))
        = [] @ map (seed_item g ?sc) (filter (\<lambda>nb. \<not> processed_at processed nb) ?nbs)
      \<and> cache_ok (snd (fold (seed_neighbor g ?sc processed) ?nbs ([], cache)))"
    using ok by (rule fold_seed_neighbor_pure)
  with q have qv: "q = map (seed_item g ?sc) (filter (\<lambda>nb. \<not> processed_at processed nb) ?nbs)"
    and ok1: "cache_ok cache1"
    by simp_all
  have pts: "point ` set q = {nb \<in> set ?nbs. \<not> processed_at processed nb}"
    by (auto simp: qv seed_item_def image_iff)
  then have "\<forall>item\<in>set q. point item \<in> valid_points g"
    using getNeighbors_valid by fastforce
  then have r0: "region_inv g processed ?seed ?st0"
    using valid unproc by (simp add: region_inv_def valid_points_def)
  have c0: "component_inv g processed ?sc ?st0"
    using ok1 pts by (simp add: component_inv_def pixel_of_def)
  let ?I = "\<lambda>s. region_inv g processed ?seed s \<and> component_inv g processed ?sc s"
  have "\<exists>st'. grow_loop g ?sc bt processed ?st0 = Some st' \<and> ?I st' \<and> \<not> loop_condition g st'"
  proof (rule grow_loop_rule)
    show "?I ?st0" using r0 c0 by simp
  next
    fix s assume "?I s" "loop_condition g s"
    then show "\<exists>s'. grow_step g ?sc bt processed s = Some s' \<and> ?I s'"
      using component_step [OF sh valid bt] by blast
  qed
  then show ?thesis
    using findRegion_unfold [OF q bt] by auto
qed

lemma upto_0_3: "[0..3] = [0, 1, 2, 3::int]"
  by (simp add: upto_rec1)

lemma halves_valid_iff:
  "isValidCoordinate (halves_grower cap) x y \<longleftrightarrow> x \<in> {0, 1, 2, 3} \<and> y \<in> {0, 1, 2, 3}"
  by (auto simp: isValidCoordinate_def grower_width_def grower_height_def
      halves_grower_def halves_image_def)

lemma halves_pixels_list:
  "m_pixels halves_image =
     [Color 255 0 0, Color 255 0 0, Color 0 0 255, Color 0 0 255,
      Color 255 0 0, Color 255 0 0, Color 0 0 255, Color 0 0 255,
      Color 255 0 0, Color 255 0 0, Color 0 0 255, Color 0 0 255,
      Color 255 0 0, Color 255 0 0, Color 0 0 255, Color 0 0 255]"
  by (simp add: halves_image_def eval_nat_numeral)

lemma halves_pixel:
  assumes "x \<in> {0, 1, 2, 3}" "y \<in> {0, 1, 2, 3}"
  shows "getPixel halves_image x y = (if x < 2 then Color 255 0 0 else Color 0 0 255)"
proof -
  have d: "m_width halves_image = 4" "m_height halves_image = 4"
    by (simp_all add: halves_image_def)
  from assms show ?thesis
    by (elim insertE emptyE; simp add: getPixel_def getIndex_def d halves_pixels_list)
qed

lemma red_blue_far:
  "colorSimilarity (Color 255 0 0) (Color 0 0 255) < 0.9"
  "colorSimilarity (Color 0 0 255) (Color 255 0 0) < 0.9"
proof -
  have "(100::real)\<^sup>2 < 130050" by simp
  then have "100 < sqrt 130050" by (rule real_less_rsqrt)
  then show "colorSimilarity (Color 255 0 0) (Color 0 0 255) < 0.9"
    by (simp add: colorSimilarity_def channel_diff_def maxDistance_def Let_def)
  then show "colorSimilarity (Color 0 0 255) (Color 255 0 0) < 0.9"
    by (simp add: colorSimilarity_sym)
qed

lemma halves_sharp:
  assumes "isValidCoordinate (halves_grower cap) sx sy"
  shows "sharp (halves_grower cap) (getPixel (m_image (halves_grower cap)) sx sy)"
proof -
  have img: "m_image (halves_grower cap) = halves_image"
    and base: "m_similarityThreshold (halves_grower cap) = 0.9"
    by (simp_all add: halves_grower_def)
  have "pixel_of (halves_grower cap) p = getPixel halves_image sx sy
      \<or> colorSimilarity (getPixel halves_image sx sy) (pixel_of (halves_grower cap) p) < 0.9"
    if "p \<in> valid_points (halves_grower cap)" for p
  proof -
    from that have "pt_x p \<in> {0, 1, 2, 3}" "pt_y p \<in> {0, 1, 2, 3}"
      by (simp_all add: valid_points_def halves_valid_iff)
    then have "pixel_of (halves_grower cap) p = (if pt_x p < 2 then Color 255 0 0 else Color 0 0 255)"
      by (simp only: pixel_of_def img halves_pixel)
    moreover from assms have "getPixel halves_image sx sy = (if sx < 2 then Color 255 0 0 else Color 0 0 255)"
      by (simp only: halves_valid_iff halves_pixel)
    ultimately show ?thesis
      using red_blue_far by auto
  qed
  then show ?thesis
    by (simp add: sharp_def img base)
qed

lemma getNeighbors_adjacent:
  assumes "isValidCoordinate g a b" "\<bar>a - x\<bar> \<le> 1" "\<bar>b - y\<bar> \<le> 1" "(a, b) \<noteq> (x, y)"
  shows "Point a b \<in> set (getNeighbors g x y True)"
proof -
  from assms(2,3) have "a - x \<in> {-1, 0, 1}" "b - y \<in> {-1, 0, 1}"
    by auto
  with assms(4) have "(a - x, b - y) \<in> set offsets8"
    by (auto simp: offsets8_def)
  then have "Point (x + fst (a - x, b - y)) (y + snd (a - x, b - y))
      \<in> (\<lambda>d. Point (x + fst d) (y + snd d)) ` set offsets8"
    by (rule imageI)
  then have "Point a b \<in> (\<lambda>d. Point (x + fst d) (y + snd d)) ` set offsets8"
    by simp
  with assms(1) show ?thesis
    by (simp add: getNeighbors_def)
qed

lemma half_of_image:
  "half_of seedX = (\<lambda>(a, b). Point a b) ` ((if seedX < 2 then {0, 1} else {2, 3}) \<times> {0, 1, 2, 3})"
proof (intro set_eqI iffI)
  fix p assume "p \<in> half_of seedX"
  then have "(pt_x p, pt_y p) \<in> (if seedX < 2 then {0, 1} else {2, 3}) \<times> {0, 1, 2, 3}"
    by (auto simp: half_of_def)
  then have "(\<lambda>(a, b). Point a b) (pt_x p, pt_y p)
      \<in> (\<lambda>(a, b). Point a b) ` ((if seedX < 2 then {0, 1} else {2, 3}) \<times> {0, 1, 2, 3})"
    by (rule imageI)
  then show "p \<in> (\<lambda>(a, b). Point a b) ` ((if seedX < 2 then {0, 1} else {2, 3}) \<times> {0, 1, 2, 3})"
    by simp
next
  fix p assume "p \<in> (\<lambda>(a, b). Point a b) ` ((if seedX < 2 then {0, 1} else {2, 3}) \<times> {0, 1, 2, 3})"
  then obtain a b where "p = Point a b" "a \<in> (if seedX < 2 then {0, 1} else {2, 3})" "b \<in> {0, 1, 2, 3}"
    by auto
  then show "p \<in> half_of seedX"
    by (auto simp: half_of_def split: if_splits)
qed

lemma card_half_of: "finite (half_of seedX) \<and> card (half_of seedX) = 8"
proof -
  let ?A = "(if seedX < 2 then {0, 1} else {2, 3::int}) \<times> {0, 1, 2, 3::int}"
  have "inj_on (\<lambda>(a, b). Point a b) ?A"
    by (auto simp: inj_on_def)
  then have "card ((\<lambda>(a, b). Point a b) ` ?A) = card ?A"
    by (rule card_image)
  also have "\<dots> = 8"
    by (simp add: card_cartesian_product)
  finally show ?thesis
    by (simp add: half_of_image)
qed

lemma closed_region_covers_half:
  assumes seed: "Point seedX seedY \<in> reg" "seedX \<in> {0, 1, 2, 3}" "seedY \<in> {0, 1, 2, 3}"
    and closed: "\<And>p a b. p \<in> reg \<Longrightarrow> Point a b \<in> half_of seedX
        \<Longrightarrow> Point a b \<in> set (getNeighbors g (pt_x p) (pt_y p) True) \<Longrightarrow> Point a b \<in> reg"
    and valid: "\<And>a b. Point a b \<in> half_of seedX \<Longrightarrow> isValidCoordinate g a b"
    and sub: "reg \<subseteq> half_of seedX"
  shows "half_of seedX \<subseteq> reg"
proof -
  have step: "Point a' b' \<in> reg"
    if "Point a b \<in> reg" "Point a' b' \<in> half_of seedX" "\<bar>b' - b\<bar> \<le> 1" for a b a' b'
  proof (cases "(a', b') = (a, b)")
    case True
    with that(1) show ?thesis by simp
  next
    case False
    from that(1) sub have "Point a b \<in> half_of seedX" by blast
    with that(2) have "\<bar>a' - a\<bar> \<le> 1"
      by (auto simp: half_of_def)
    with that(3) False valid [OF that(2)]
    have "Point a' b' \<in> set (getNeighbors g a b True)"
      by (intro getNeighbors_adjacent) simp_all
    with closed [OF that(1) that(2)] show ?thesis by simp
  qed
  have reach: "\<forall>a b. Point a b \<in> half_of seedX \<and> \<bar>b - seedY\<bar> \<le> int d \<longrightarrow> Point a b \<in> reg" for d
  proof (induction d)
    case 0
    show ?case
      using step [OF seed(1)] by auto
  next
    case (Suc d)
    show ?case
    proof (intro allI impI)
      fix a b
      assume ab: "Point a b \<in> half_of seedX \<and> \<bar>b - seedY\<bar> \<le> int (Suc d)"
      show "Point a b \<in> reg"
      proof (cases "\<bar>b - seedY\<bar> \<le> int d")
        case True
        with ab Suc show ?thesis by blast
      next
        case False
        define b0 where "b0 = (if seedY < b then b - 1 else b + 1)"
        have b0: "\<bar>b0 - seedY\<bar> \<le> int d" "\<bar>b - b0\<bar> \<le> 1"
          using ab False by (auto simp: b0_def)
        have "b0 \<in> {0, 1, 2, 3}"
          using ab seed(3) False by (auto simp: b0_def half_of_def)
        with ab have "Point a b0 \<in> half_of seedX"
          by (simp add: half_of_def)
        with Suc b0(1) have "Point a b0 \<in> reg" by blast
        from step [OF this _ b0(2)] ab show ?thesis by blast
      qed
    qed
  qed
  show ?thesis
  proof
    fix p assume p: "p \<in> half_of seedX"
    obtain a b where ab: "p = Point a b" by (cases p)
    with p have "\<bar>b - seedY\<bar> \<le> int 3"
      using seed(3) by (auto simp: half_of_def)
    with p ab reach [of 3] have "Point a b \<in> reg"
      by blast
    with ab show "p \<in> reg" by simp
  qed
qed

lemma average_of_uniform:
  assumes "points \<noteq> []" "length points \<le> 16843009"
    and "\<forall>p\<in>set points. getPixel img (pt_x p) (pt_y p) = c"
  shows "calculateAverageColor points img = Some c"
proof -
  have "pixels_at img points = map (\<lambda>p. c) points"
    unfolding pixels_at_def using assms(3) by (intro map_cong) simp_all
  then have px: "pixels_at img points = replicate (length points) c"
    by (simp add: map_replicate_const)
  have m: "mean_channel f (pixels_at img points) = unat (f c)" for f
    using assms(1) by (simp add: px mean_channel_def chan_sum_replicate)
  from average_small [OF assms(1,2), of img] obtain c' where
    c': "calculateAverageColor points img = Some c'"
    "unat (col_r c') = unat (col_r c)" "unat (col_g c') = unat (col_g c)"
    "unat (col_b c') = unat (col_b c)"
    by (auto simp: m)
  then have "c' = c"
    by (intro Color.expand) (simp add: word_unat_eq_iff)
  with c'(1) show ?thesis by simp
qed

lemma halves_region:
  assumes cap: "8 \<le> size_t_of_int cap"
    and seed: "seedX \<in> {0, 1, 2, 3}" "seedY \<in> {0, 1, 2, 3}"
    and mask: "\<forall>p\<in>half_of seedX. \<not> processed_at processed p"
    and ok: "cache_ok cache"
  shows "\<exists>R cache'. findRegion (halves_grower cap) cache seedX seedY processed = Some (R, cache')
           \<and> set R = half_of seedX \<and> length R = 8
           \<and> calculateAverageColor R halves_image = Some (getPixel halves_image seedX seedY)"
proof -
  let ?g = "halves_grower cap"
  let ?sc = "getPixel (m_image ?g) seedX seedY"
  let ?seed = "Point seedX seedY"
  have img: "m_image ?g = halves_image"
    by (simp add: halves_grower_def)
  have valid: "isValidCoordinate ?g seedX seedY"
    using seed by (simp add: halves_valid_iff)
  have seedH: "?seed \<in> half_of seedX"
    using seed by (simp add: half_of_def)
  have sc: "?sc = (if seedX < 2 then Color 255 0 0 else Color 0 0 255)"
    using seed by (simp only: img halves_pixel)
  have col: "pixel_of ?g p = ?sc \<longleftrightarrow> p \<in> half_of seedX" if "p \<in> valid_points ?g" for p
  proof -
    from that have v: "pt_x p \<in> {0, 1, 2, 3}" "pt_y p \<in> {0, 1, 2, 3}"
      by (simp_all add: valid_points_def halves_valid_iff)
    then have "pixel_of ?g p = (if pt_x p < 2 then Color 255 0 0 else Color 0 0 255)"
      by (simp only: pixel_of_def img halves_pixel)
    with v show ?thesis
      by (auto simp: sc half_of_def)
  qed
  have vH: "p \<in> valid_points ?g" if "p \<in> half_of seedX" for p
    using that by (simp add: valid_points_def halves_valid_iff half_of_def)
  obtain st where res: "findRegion ?g cache seedX seedY processed = Some (regionList st, similarityCache st)"
    and rinv: "region_inv ?g processed ?seed st"
    and cinv: "component_inv ?g processed ?sc st"
    and exit: "\<not> loop_condition ?g st"
    using findRegion_component [OF valid _ halves_sharp [OF valid] ok] mask seedH by blast
  from rinv have reg: "region st = set (regionList st)" and dist: "distinct (regionList st)"
    and seedin: "?seed \<in> region st"
    and regv: "\<forall>p\<in>region st. p \<in> valid_points ?g"
    by (simp_all add: region_inv_def)
  from cinv have same: "\<forall>p\<in>region st. pixel_of ?g p = ?sc"
    by (simp add: component_inv_def)
  have sub: "region st \<subseteq> half_of seedX"
    using regv same col by blast
  have "half_of seedX \<subseteq> region st"
  proof (cases "priorityQueue st = []")
    case True
    have closed: "Point a b \<in> region st"
      if "p \<in> region st" "Point a b \<in> half_of seedX"
        "Point a b \<in> set (getNeighbors ?g (pt_x p) (pt_y p) True)" for p a b
    proof -
      have "pixel_of ?g (Point a b) = ?sc \<and> \<not> processed_at processed (Point a b)"
        using that(2) col [OF vH [OF that(2)]] mask by blast
      with cinv that(1,3) have "Point a b \<in> region st \<or> Point a b \<in> point ` set (priorityQueue st)"
        unfolding component_inv_def by blast
      with True show ?thesis by simp
    qed
    have v: "isValidCoordinate ?g a b" if "Point a b \<in> half_of seedX" for a b
      using vH [OF that] by (simp add: valid_points_def)
    show ?thesis
      using seedin seed closed v sub by (rule closed_region_covers_half)
  next
    case False
    with exit cap have "8 \<le> card (region st)"
      by (simp add: loop_condition_def halves_grower_def)
    with card_half_of [of seedX] sub have "region st = half_of seedX"
      by (intro card_seteq) simp_all
    then show ?thesis by simp
  qed
  with sub have eq: "set (regionList st) = half_of seedX"
    by (simp add: reg)
  with dist have len: "length (regionList st) = 8"
    using card_half_of [of seedX] by (metis distinct_card)
  have "\<forall>p\<in>set (regionList st). getPixel halves_image (pt_x p) (pt_y p) = getPixel halves_image seedX seedY"
    using same by (simp add: reg pixel_of_def img)
  then have "calculateAverageColor (regionList st) halves_image = Some (getPixel halves_image seedX seedY)"
    using len by (intro average_of_uniform) auto
  with res eq len show ?thesis
    by blast
qed

lemma no_mask_unprocessed:
  assumes "pt_x p \<in> {0, 1, 2, 3}" "pt_y p \<in> {0, 1, 2, 3}"
  shows "\<not> processed_at (no_mask 4 4) p"
proof -
  have "nat (pt_x p) < 4" "nat (pt_y p) < 4"
    using assms by auto
  then show ?thesis
    by (simp add: processed_at_def no_mask_def)
qed

lemma halves_region_example:
  "\<exists>R cache'. findRegion (halves_grower (-1)) Map.empty 0 0 (no_mask 4 4) = Some (R, cache')
     \<and> set R = {Point 0 0, Point 1 0, Point 0 1, Point 1 1, Point 0 2, Point 1 2, Point 0 3, Point 1 3}
     \<and> length R = 8
     \<and> calculateAverageColor R halves_image = Some (Color 255 0 0)"
proof -
  have cap: "8 \<le> size_t_of_int (-1)"
    by (simp add: size_t_of_int_def)
  have mask: "\<forall>p\<in>half_of 0. \<not> processed_at (no_mask 4 4) p"
  proof
    fix p assume "p \<in> half_of 0"
    then have "pt_x p \<in> {0, 1, 2, 3}" "pt_y p \<in> {0, 1, 2, 3}"
      unfolding half_of_def by blast+
    then show "\<not> processed_at (no_mask 4 4) p"
      by (rule no_mask_unprocessed)
  qed
  have h: "half_of 0 = {Point 0 0, Point 1 0, Point 0 1, Point 1 1, Point 0 2, Point 1 2, Point 0 3, Point 1 3}"
    by (auto simp: half_of_image)
  have px: "getPixel halves_image 0 0 = Color 255 0 0"
    using halves_pixel [of 0 0] by simp
  show ?thesis
    using halves_region [OF cap _ _ mask cache_ok_empty, of 0] by (simp add: h px)
qed

section \<open>The configured cap\<close>

text \<open>
  The loop of the source and the loop without the cap test give the same region and the
  same cache whenever the stored cap is not smaller than the number of pixels: the region
  holds distinct valid points only, so it stays below the cap until every pixel is in it,
  and from then on an iteration only drops the pixel it pops.
\<close>

lemma card_valid_points: "card (valid_points g) \<le> nat (grower_width g * grower_height g)"
proof -
  let ?A = "{0..<grower_width g} \<times> {0..<grower_height g}"
  have sub: "valid_points g \<subseteq> (\<lambda>(a, b). Point a b) ` ?A"
  proof
    fix p assume "p \<in> valid_points g"
    then have "(pt_x p, pt_y p) \<in> ?A"
      by (simp add: valid_points_def isValidCoordinate_def)
    then have "(\<lambda>(a, b). Point a b) (pt_x p, pt_y p) \<in> (\<lambda>(a, b). Point a b) ` ?A"
      by (rule imageI)
    then show "p \<in> (\<lambda>(a, b). Point a b) ` ?A"
      by simp
  qed
  have "card (valid_points g) \<le> card ((\<lambda>(a, b). Point a b) ` ?A)"
    using sub by (intro card_mono) simp_all
  also have "\<dots> \<le> card ?A"
    by (intro card_image_le) simp
  also have "\<dots> = nat (grower_width g) * nat (grower_height g)"
    by (simp add: card_cartesian_product)
  also have "\<dots> \<le> nat (grower_width g * grower_height g)"
  proof (cases "0 \<le> grower_width g \<and> 0 \<le> grower_height g")
    case True
    then show ?thesis by (simp add: nat_mult_distrib)
  next
    case False
    then have z: "nat (grower_width g) * nat (grower_height g) = 0"
      by auto
    show ?thesis unfolding z by simp
  qed
  finally show ?thesis .
qed

lemma drain_queue:
  "\<forall>item\<in>set (priorityQueue st). point item \<in> region st \<Longrightarrow>
     \<exists>st'. grow_loop_uncapped g sc bt pr st = Some st' \<and> result_of st' = result_of st"
proof (induction g sc bt pr st rule: grow_loop_uncapped.induct)
  case (1 g sc bt pr st)
  show ?case
  proof (cases "priorityQueue st = []")
    case True
    then show ?thesis
      by (simp add: grow_loop_uncapped.simps [of g sc bt pr st])
  next
    case False
    let ?st1 = "st\<lparr>priorityQueue := pq_pop (priorityQueue st)\<rparr>"
    have "pq_top (priorityQueue st) \<in> set (priorityQueue st)"
      using False by (rule pq_top_mem)
    with "1.prems" have "current_point st \<in> region st"
      by (simp add: current_point_def)
    then have step: "grow_step g sc bt pr st = Some ?st1"
      by (intro grow_step_skip) simp
    have "\<forall>item\<in>set (priorityQueue ?st1). point item \<in> region ?st1"
      using "1.prems" set_pq_pop [of "priorityQueue st"] by auto
    from "1.IH" [OF False step this] obtain st' where
      "grow_loop_uncapped g sc bt pr ?st1 = Some st'" "result_of st' = result_of ?st1"
      by blast
    with False step show ?thesis
      by (simp add: grow_loop_uncapped.simps [of g sc bt pr st] result_of_def)
  qed
qed

lemma capped_eq_uncapped:
  assumes "region_inv g processed seed st"
    and "nat (grower_width g * grower_height g) \<le> size_t_of_int (m_maxRegionSize g)"
  shows "map_option result_of (grow_loop g sc bt processed st)
       = map_option result_of (grow_loop_uncapped g sc bt processed st)"
  using assms
proof (induction g sc bt processed st rule: grow_loop.induct)
  case (1 g sc bt processed st)
  show ?case
  proof (cases "loop_condition g st")
    case True
    then obtain st1 where st1: "grow_step g sc bt processed st = Some st1"
      "region_inv g processed seed st1"
      using grow_step_inv [OF "1.prems"(1)] by blast
    from True have ne: "priorityQueue st \<noteq> []"
      by (simp add: loop_condition_def)
    have "map_option result_of (grow_loop g sc bt processed st1)
        = map_option result_of (grow_loop_uncapped g sc bt processed st1)"
      using "1.IH" [OF True st1(1) st1(2) "1.prems"(2)] .
    then show ?thesis
      using True ne st1(1)
      by (simp add: grow_loop.simps [of g sc bt processed st]
          grow_loop_uncapped.simps [of g sc bt processed st])
  next
    case False
    then have capped: "grow_loop g sc bt processed st = Some st"
      by (simp add: grow_loop.simps [of g sc bt processed st])
    show ?thesis
    proof (cases "priorityQueue st = []")
      case True
      then show ?thesis
        by (simp add: capped grow_loop_uncapped.simps [of g sc bt processed st])
    next
      case ne: False
      with False have "size_t_of_int (m_maxRegionSize g) \<le> card (region st)"
        by (simp add: loop_condition_def)
      with "1.prems"(2) card_valid_points [of g]
      have le: "card (valid_points g) \<le> card (region st)"
        by simp
      from "1.prems"(1) have sub: "region st \<subseteq> valid_points g"
        and qv: "\<forall>item\<in>set (priorityQueue st). point item \<in> valid_points g"
        by (auto simp: region_inv_def)
      have "region st = valid_points g"
        using finite_valid_points sub le by (rule card_seteq)
      with qv have "\<forall>item\<in>set (priorityQueue st). point item \<in> region st"
        by simp
      then obtain st' where "grow_loop_uncapped g sc bt processed st = Some st'"
        "result_of st' = result_of st"
        using drain_queue by blast
      then show ?thesis
        by (simp add: capped)
    qed
  qed
qed

lemma findRegion_uncapped_unfold:
  assumes "fold (seed_neighbor g (getPixel (m_image g) seedX seedY) processed)
             (getNeighbors g seedX seedY True) ([], cache) = (q, cache1)"
    and "baseAdaptiveThreshold g seedX seedY = Some bt"
  shows "findRegion_uncapped g cache seedX seedY processed
       = map_option result_of
           (grow_loop_uncapped g (getPixel (m_image g) seedX seedY) bt processed
              \<lparr>region = {Point seedX seedY}, regionList = [Point seedX seedY],
               priorityQueue = q, similarityCache = cache1\<rparr>)"
  using assms by (simp add: findRegion_uncapped_def result_of_def Let_def split: option.splits)

lemma findRegion_eq_uncapped:
  assumes "isValidCoordinate g seedX seedY" "\<not> processed_at processed (Point seedX seedY)"
    and "nat (grower_width g * grower_height g) \<le> size_t_of_int (m_maxRegionSize g)"
  shows "findRegion g cache seedX seedY processed = findRegion_uncapped g cache seedX seedY processed"
proof -
  let ?sc = "getPixel (m_image g) seedX seedY"
  obtain q cache1 where q: "fold (seed_neighbor g ?sc processed)
      (getNeighbors g seedX seedY True) ([], cache) = (q, cache1)"
    by (cases "fold (seed_neighbor g ?sc processed) (getNeighbors g seedX seedY True) ([], cache)")
  obtain bt where bt: "baseAdaptiveThreshold g seedX seedY = Some bt"
    using baseAdaptiveThreshold_Some [OF assms(1)] by blast
  let ?st0 = "\<lparr>region = {Point seedX seedY}, regionList = [Point seedX seedY],
               priorityQueue = q, similarityCache = cache1\<rparr>"
  have "point ` set q \<subseteq> set (getNeighbors g seedX seedY True) \<union> point ` set []"
    using fold_seed_neighbor_points [of g ?sc processed "getNeighbors g seedX seedY True" "([], cache)"] q
    by simp
  then have "\<forall>item\<in>set q. point item \<in> valid_points g"
    by (rule points_valid_from_neighbors) simp
  then have "region_inv g processed (Point seedX seedY) ?st0"
    using assms(1,2) by (simp add: region_inv_def valid_points_def)
  then have "map_option result_of (grow_loop g ?sc bt processed ?st0)
      = map_option result_of (grow_loop_uncapped g ?sc bt processed ?st0)"
    using assms(3) by (rule capped_eq_uncapped)
  moreover have "findRegion g cache seedX seedY processed
      = map_option result_of (grow_loop g ?sc bt processed ?st0)"
    using findRegion_unfold [OF q bt] by (simp add: result_of_def [abs_def])
  ultimately show ?thesis
    by (simp add: findRegion_uncapped_unfold [OF q bt])
qed

lemma RegionGrower_new_members:
  "m_image (RegionGrower_new u img t c a) = img"
  "m_similarityThreshold (RegionGrower_new u img t c a) = t"
  "m_adaptiveMode (RegionGrower_new u img t c a) = a"
  "m_maxRegionSize (RegionGrower_new u img t c a) = (if c = 0 then u else c)"
  "grower_width (RegionGrower_new u img t c a) = m_width img"
  "grower_height (RegionGrower_new u img t c a) = m_height img"
  by (simp_all add: RegionGrower_new_def grower_width_def grower_height_def)

text \<open>
  Claim C1. A grower is built with a configured \<open>maxRegionSize\<close> (the constructor is
  modelled from the spec: a configured 0 is stored as a cap \<open>unboundedCap\<close> that is not
  smaller than the number of pixels of the image, any other value as it is). For every
  valid seed that is not processed \<^verbatim>\<open>findRegion\<close> returns, and
  \<^item> if \<open>maxRegionSize\<close> is positive, the region has at most \<open>maxRegionSize\<close> points;
  \<^item> if \<open>maxRegionSize\<close> is 0, the region and the cache are those of the loop without a
    cap test, which stops only when the queue is empty: the cap never cuts growth short.
\<close>

theorem region_size_cap:
  assumes "isValidCoordinate
             (RegionGrower_new unboundedCap img similarityThreshold maxRegionSize adaptiveMode)
             seedX seedY"
    and "\<not> processed_at processed (Point seedX seedY)"
    and "nat (m_width img * m_height img) \<le> size_t_of_int unboundedCap"
  shows "\<exists>R cache'.
       findRegion (RegionGrower_new unboundedCap img similarityThreshold maxRegionSize adaptiveMode)
         cache seedX seedY processed = Some (R, cache')
     \<and> (0 < maxRegionSize \<and> maxRegionSize < 2 ^ 31 \<longrightarrow> int (length R) \<le> maxRegionSize)
     \<and> (maxRegionSize = 0 \<longrightarrow>
          findRegion_uncapped
            (RegionGrower_new unboundedCap img similarityThreshold maxRegionSize adaptiveMode)
            cache seedX seedY processed = Some (R, cache'))"
proof -
  let ?g = "RegionGrower_new unboundedCap img similarityThreshold maxRegionSize adaptiveMode"
  obtain R cache' where res: "findRegion ?g cache seedX seedY processed = Some (R, cache')"
    using findRegion_inv [OF assms(1,2), of cache] by blast
  have "int (length R) \<le> maxRegionSize" if "0 < maxRegionSize \<and> maxRegionSize < 2 ^ 31"
    using findRegion_size_cap [OF assms(1,2) _ _ res] that
    by (simp add: RegionGrower_new_members)
  moreover have "findRegion_uncapped ?g cache seedX seedY processed = Some (R, cache')"
    if "maxRegionSize = 0"
  proof -
    have "nat (grower_width ?g * grower_height ?g) \<le> size_t_of_int (m_maxRegionSize ?g)"
      using assms(3) that by (simp add: RegionGrower_new_members)
    with findRegion_eq_uncapped [OF assms(1,2), of cache] res show ?thesis
      by simp
  qed
  ultimately show ?thesis
    using res by blast
qed

theorem region_size_cap_witness:
  "isValidCoordinate (RegionGrower_new 2 uniform_image 0.9 0 True) 0 0
   \<and> \<not> processed_at [[False, False]] (Point 0 0)
   \<and> nat (m_width uniform_image * m_height uniform_image) \<le> size_t_of_int 2
   \<and> map_option fst (findRegion (RegionGrower_new 2 uniform_image 0.9 0 True) Map.empty 0 0
         [[False, False]]) = Some [Point 0 0, Point 1 0]
   \<and> map_option fst (findRegion_uncapped (RegionGrower_new 2 uniform_image 0.9 0 True) Map.empty 0 0
         [[False, False]]) = Some [Point 0 0, Point 1 0]"
proof -
  have g: "RegionGrower_new 2 uniform_image 0.9 0 True = uniform_grower 2"
    by (simp add: RegionGrower_new_def uniform_grower_def)
  have v: "isValidCoordinate (RegionGrower_new 2 uniform_image 0.9 0 True) 0 0"
    by (simp add: isValidCoordinate_def RegionGrower_new_members uniform_image_def)
  have u: "\<not> processed_at [[False, False]] (Point 0 0)"
    by (simp add: processed_at_def)
  have c: "nat (m_width uniform_image * m_height uniform_image) \<le> size_t_of_int 2"
    by (simp add: uniform_image_def size_t_of_int_def)
  have r: "map_option fst (findRegion (RegionGrower_new 2 uniform_image 0.9 0 True) Map.empty 0 0
         [[False, False]]) = Some [Point 0 0, Point 1 0]"
    unfolding g by (rule uniform_growth)
  from region_size_cap [OF v u c, of Map.empty] r
  have "map_option fst (findRegion_uncapped (RegionGrower_new 2 uniform_image 0.9 0 True) Map.empty 0 0
         [[False, False]]) = Some [Point 0 0, Point 1 0]"
    by auto
  with v u c r show ?thesis
    by simp
qed

text \<open>
  Claim C2. On the 4 by 4 image whose columns 0 and 1 are \<open>(255, 0, 0)\<close> and whose columns
  2 and 3 are \<open>(0, 0, 255)\<close>, a grower built with the threshold 0.9, adaptive mode and the
  configured \<open>maxRegionSize = 0\<close> (stored by the constructor, modelled from the spec, as a
  cap not smaller than the 16 pixels of the image), started at a seed of either half of
  which no pixel is processed, returns exactly the 8 pixels of that half, each once, and
  the average colour of the region is the colour of the half. This holds for every seed,
  every cache the grower can have built and every order in which equal priorities are
  popped.
\<close>

theorem halves_scenario:
  assumes "16 \<le> size_t_of_int unboundedCap"
    and "seedX \<in> {0, 1, 2, 3}" "seedY \<in> {0, 1, 2, 3}"
    and "\<forall>p\<in>half_of seedX. \<not> processed_at processed p"
    and "reachable_cache cache"
  shows "\<exists>R cache'.
       findRegion (RegionGrower_new unboundedCap halves_image 0.9 0 True) cache seedX seedY processed
         = Some (R, cache')
     \<and> set R = half_of seedX \<and> distinct R \<and> length R = 8
     \<and> calculateAverageColor R halves_image = Some (getPixel halves_image seedX seedY)
     \<and> getPixel halves_image seedX seedY = (if seedX < 2 then Color 255 0 0 else Color 0 0 255)"
proof -
  have g: "RegionGrower_new unboundedCap halves_image 0.9 0 True = halves_grower unboundedCap"
    by (simp add: RegionGrower_new_def halves_grower_def)
  have cap: "8 \<le> size_t_of_int unboundedCap"
    using assms(1) by simp
  have ok: "cache_ok cache"
    using assms(5) by (rule reachable_cache_ok)
  obtain R cache' where r: "findRegion (halves_grower unboundedCap) cache seedX seedY processed = Some (R, cache')"
    "set R = half_of seedX" "length R = 8"
    "calculateAverageColor R halves_image = Some (getPixel halves_image seedX seedY)"
    using halves_region [OF cap assms(2,3,4) ok] by blast
  have "card (set R) = length R"
    using r(2,3) card_half_of [of seedX] by simp
  then have "distinct R"
    by (rule card_distinct)
  moreover have "getPixel halves_image seedX seedY = (if seedX < 2 then Color 255 0 0 else Color 0 0 255)"
    using assms(2,3) by (rule halves_pixel)
  ultimately show ?thesis
    using r unfolding g by blast
qed

theorem halves_scenario_witness:
  "16 \<le> size_t_of_int 16 \<and> (0::int) \<in> {0, 1, 2, 3}
   \<and> \<not> processed_at (no_mask 4 4) (Point 0 0) \<and> reachable_cache Map.empty
   \<and> (\<exists>R cache'. findRegion (RegionGrower_new 16 halves_image 0.9 0 True) Map.empty 0 0 (no_mask 4 4)
          = Some (R, cache')
        \<and> set R = {Point 0 0, Point 1 0, Point 0 1, Point 1 1, Point 0 2, Point 1 2, Point 0 3, Point 1 3}
        \<and> distinct R \<and> length R = 8
        \<and> calculateAverageColor R halves_image = Some (Color 255 0 0))"
proof -
  have cap: "16 \<le> size_t_of_int 16"
    by (simp add: size_t_of_int_def)
  have s: "(0::int) \<in> {0, 1, 2, 3}"
    by simp
  have mask: "\<forall>p\<in>half_of 0. \<not> processed_at (no_mask 4 4) p"
  proof
    fix p assume "p \<in> half_of 0"
    then have "pt_x p \<in> {0, 1, 2, 3}" "pt_y p \<in> {0, 1, 2, 3}"
      unfolding half_of_def by blast+
    then show "\<not> processed_at (no_mask 4 4) p"
      by (rule no_mask_unprocessed)
  qed
  have h: "half_of 0 = {Point 0 0, Point 1 0, Point 0 1, Point 1 1, Point 0 2, Point 1 2, Point 0 3, Point 1 3}"
    by (auto simp: half_of_image)
  have px: "getPixel halves_image 0 0 = Color 255 0 0"
    using halves_pixel [of 0 0] by simp
  have seed: "\<not> processed_at (no_mask 4 4) (Point 0 0)"
    using mask by (simp add: h)
  show ?thesis
    using cap seed reachable_cache.fresh
      halves_scenario [OF cap s s mask reachable_cache.fresh]
    by (simp add: h px)
qed

end
